theory Spec2Isabelle
  imports Complex_Main "HOL-Library.Word" "HOL-Library.Signed_Division" "HOL-Library.Sublist"
    "HOL-Library.Multiset"
begin

section \<open>Client side load balancing: the dial interception pipeline\<close>

text \<open>
  A shallow embedding of the Go package \<^verbatim>\<open>cslb\<close>: the SRV cache (\<^verbatim>\<open>srv.go\<close>), the
  health cache and its prober (\<^verbatim>\<open>health.go\<close>) and the dial interceptor (\<^verbatim>\<open>dial.go\<close>).

  Conventions of the embedding.
  \<^item> \<^verbatim>\<open>time.Time\<close> is an \<open>int\<close> (nanoseconds since Go's zero time, which is \<open>0\<close>) and
    \<^verbatim>\<open>time.Duration\<close> is an \<open>int\<close> of nanoseconds.
  \<^item> Go's \<^verbatim>\<open>int\<close> is modelled by \<open>int\<close>: the only arithmetic on it is counters and sums of
    at most \<open>65535 * 1000\<close> per record, far from 64 bit overflow for any list that fits in
    memory. The \<^verbatim>\<open>uint16\<close> fields of \<^verbatim>\<open>net.SRV\<close> are \<open>16 word\<close>, so that the conversions
    \<^verbatim>\<open>uint16(...)\<close> of the source truncate as they do in Go.
  \<^item> A Go \<^verbatim>\<open>error\<close> is a \<open>string option\<close>: \<open>None\<close> is \<^verbatim>\<open>nil\<close>, \<open>Some m\<close> an error whose
    \<^verbatim>\<open>Error()\<close> text is \<open>m\<close>.
  \<^item> A run time panic (index out of range) is the \<open>Inl\<close> branch of a sum.
  \<^item> The replaceable seams of \<^verbatim>\<open>cslb\<close> (\<^verbatim>\<open>netResolver\<close>, \<^verbatim>\<open>systemDialContext\<close>,
    \<^verbatim>\<open>randIntn\<close>, \<^verbatim>\<open>time.Now\<close>) are parameters of the functions that call them.
\<close>

subsection \<open>Time\<close>

type_synonym Time = int
type_synonym Duration = int

definition zeroTime :: Time where
  "zeroTime = 0"

definition IsZero :: "Time \<Rightarrow> bool" where
  "IsZero t = (t = 0)"

definition Before :: "Time \<Rightarrow> Time \<Rightarrow> bool" where
  "Before t u = (t < u)"

definition After :: "Time \<Rightarrow> Time \<Rightarrow> bool" where
  "After t u = (t > u)"

definition Add :: "Time \<Rightarrow> Duration \<Rightarrow> Time" where
  "Add t d = t + d"

definition Second :: Duration where
  "Second = 1000000000"

definition Minute :: Duration where
  "Minute = 60 * Second"

definition Hour :: Duration where
  "Hour = 60 * Minute"

subsection \<open>Strings\<close>

text \<open>Go strings are byte strings; \<open>string\<close> is a list of 8 bit characters.\<close>

definition digitChar :: "nat \<Rightarrow> char" where
  "digitChar d = ''0123456789'' ! d"

text \<open>\<^verbatim>\<open>strconv.FormatUint(n, 10)\<close>.\<close>

fun FormatUint :: "nat \<Rightarrow> string" where
  "FormatUint n = (if n < 10 then [digitChar n] else FormatUint (n div 10) @ [digitChar (n mod 10)])"

declare FormatUint.simps [simp del]

text \<open>The verb \<^verbatim>\<open>%d\<close> of \<^verbatim>\<open>fmt.Sprintf\<close> on an \<^verbatim>\<open>int\<close>.\<close>

definition FormatInt :: "int \<Rightarrow> string" where
  "FormatInt i = (if i < 0 then CHR ''-'' # FormatUint (nat (- i)) else FormatUint (nat i))"

text \<open>
  \<^verbatim>\<open>strings.ToLower\<close>, on the ASCII letters. (Go also maps the upper case letters beyond
  ASCII; host names are ASCII, and no property below depends on which bytes change.)
\<close>

definition lowerChar :: "char \<Rightarrow> char" where
  "lowerChar c = (let n = (of_char c :: nat) in if 65 \<le> n \<and> n \<le> 90 then char_of (n + 32) else c)"

definition ToLower :: "string \<Rightarrow> string" where
  "ToLower s = map lowerChar s"

text \<open>\<^verbatim>\<open>strings.LastIndex(s, ":")\<close>: the index of the last colon of \<open>s\<close>, or \<open>-1\<close>.\<close>

fun LastIndexFrom :: "char \<Rightarrow> string \<Rightarrow> int \<Rightarrow> int \<Rightarrow> int" where
  "LastIndexFrom c [] i found = found"
| "LastIndexFrom c (x # xs) i found = LastIndexFrom c xs (i + 1) (if x = c then i else found)"

definition LastIndex :: "string \<Rightarrow> char \<Rightarrow> int" where
  "LastIndex s c = LastIndexFrom c s 0 (- 1)"

text \<open>\<^verbatim>\<open>strings.IndexByte(s, c)\<close>: the index of the first \<open>c\<close> of \<open>s\<close>, or \<open>-1\<close>.\<close>

fun IndexByteFrom :: "char \<Rightarrow> string \<Rightarrow> int \<Rightarrow> int" where
  "IndexByteFrom c [] i = - 1"
| "IndexByteFrom c (x # xs) i = (if x = c then i else IndexByteFrom c xs (i + 1))"

definition IndexByte :: "string \<Rightarrow> char \<Rightarrow> int" where
  "IndexByte s c = IndexByteFrom c s 0"

text \<open>\<^verbatim>\<open>bytes.Contains(b, sub)\<close>: \<open>sub\<close> occurs in \<open>b\<close> as a contiguous run.\<close>

fun Contains :: "string \<Rightarrow> string \<Rightarrow> bool" where
  "Contains [] sub = (sub = [])"
| "Contains (x # xs) sub = (prefix sub (x # xs) \<or> Contains xs sub)"

text \<open>
  Indexing and slicing with Go's bounds checks: \<^verbatim>\<open>s[i]\<close> needs \<open>0 \<le> i < len(s)\<close>,
  \<^verbatim>\<open>s[:i]\<close> and \<^verbatim>\<open>s[i:]\<close> need \<open>0 \<le> i \<le> len(s)\<close>; anything else panics.
\<close>

datatype panic = IndexOutOfRange | SliceBoundsOutOfRange | NilDereference

definition byteAt :: "string \<Rightarrow> int \<Rightarrow> panic + char" where
  "byteAt s i = (if 0 \<le> i \<and> i < int (length s) then Inr (s ! nat i) else Inl IndexOutOfRange)"

definition sliceTo :: "string \<Rightarrow> int \<Rightarrow> panic + string" where
  "sliceTo s i = (if 0 \<le> i \<and> i \<le> int (length s) then Inr (take (nat i) s) else Inl SliceBoundsOutOfRange)"

definition sliceFrom :: "string \<Rightarrow> int \<Rightarrow> panic + string" where
  "sliceFrom s i = (if 0 \<le> i \<and> i \<le> int (length s) then Inr (drop (nat i) s) else Inl SliceBoundsOutOfRange)"

subsection \<open>Configuration (\<^verbatim>\<open>cslb.go\<close>)\<close>

record config =
  DisableInterception :: bool
  DisableHealthChecks :: bool
  AllowNumericServices :: bool
  ServiceName :: string
  HealthCheckTXTPrefix :: string
  HealthCheckContentOk :: string
  HealthCheckFrequency :: Duration
  InterceptTimeout :: Duration
  DialVetoDuration :: Duration
  NotFoundSRVTTL :: Duration
  FoundSRVTTL :: Duration
  HealthTTL :: Duration

text \<open>The defaults that \<^verbatim>\<open>newCslb\<close> installs before reading the environment.\<close>

definition defaultConfig :: config where
  "defaultConfig = \<lparr>
     DisableInterception = False,
     DisableHealthChecks = False,
     AllowNumericServices = False,
     ServiceName = [],
     HealthCheckTXTPrefix = ''._cslb.'',
     HealthCheckContentOk = ''OK'',
     HealthCheckFrequency = 50 * Second,
     InterceptTimeout = Minute,
     DialVetoDuration = Minute,
     NotFoundSRVTTL = 20 * Minute,
     FoundSRVTTL = 5 * Minute,
     HealthTTL = 5 * Minute \<rparr>"

definition lowerDurationLimit :: Duration where
  "lowerDurationLimit = Second"

definition upperDurationLimit :: Duration where
  "upperDurationLimit = Hour"

text \<open>
  \<^verbatim>\<open>getAndParseDuration\<close>: the environment variable is absent or empty (\<open>None\<close>), does not
  parse (\<open>Some None\<close>), or parses to a duration (\<open>Some (Some d)\<close>).
\<close>

definition getAndParseDuration :: "Duration option option \<Rightarrow> Duration \<Rightarrow> Duration" where
  "getAndParseDuration e currValue =
     (case e of
        None \<Rightarrow> currValue
      | Some None \<Rightarrow> currValue
      | Some (Some d) \<Rightarrow> if d < lowerDurationLimit \<or> d > upperDurationLimit then currValue else d)"

subsection \<open>The SRV cache: data (\<^verbatim>\<open>srv.go\<close>)\<close>

text \<open>\<^verbatim>\<open>net.SRV\<close> of the Go standard library.\<close>

record SRV =
  Target :: string
  Port :: "16 word"
  Priority :: "16 word"
  Weight :: "16 word"

record ceTarget =
  weight :: int
  port :: int
  target :: string

record cePriority =
  priority :: int
  totalWeight :: int
  targets :: "ceTarget list"

record ceSRV =
  expires :: Time
  lookups :: int
  priorities :: "cePriority list"
  uniqueTargetCount :: int

definition smallChanceMultiplier :: int where
  "smallChanceMultiplier = 1000"

subsection \<open>The health cache (\<^verbatim>\<open>health.go\<close>)\<close>

record ceHealth =
  expires :: Time
  goodDials :: int
  failedDials :: int
  nextDialAttempt :: Time
  lastDialAttempt :: Time
  lastDialStatus :: string
  lastHealthCheck :: Time
  lastHealthCheckStatus :: string
  url :: string
  unHealthy :: bool

text \<open>The composite literal \<^verbatim>\<open>&ceHealth{expires: e}\<close>: every other field has its zero value.\<close>

definition newCeHealth :: "Time \<Rightarrow> ceHealth" where
  "newCeHealth e = \<lparr>
     ceHealth.expires = e, goodDials = 0, failedDials = 0, nextDialAttempt = zeroTime,
     lastDialAttempt = zeroTime, lastDialStatus = [], lastHealthCheck = zeroTime,
     lastHealthCheckStatus = [], url = [], unHealthy = False \<rparr>"

definition isGood :: "ceHealth \<Rightarrow> Time \<Rightarrow> bool" where
  "isGood t now = (\<not> unHealthy t \<and> \<not> After (nextDialAttempt t) now)"

text \<open>\<^verbatim>\<open>uint64(port)\<close> of an \<^verbatim>\<open>int\<close> wraps a negative port around.\<close>

definition makeHealthStoreKey :: "string \<Rightarrow> int \<Rightarrow> string" where
  "makeHealthStoreKey host portNo = host @ '':'' @ FormatUint (nat (portNo mod 2 ^ 64))"

definition unpackHealthStoreKey :: "string \<Rightarrow> panic + (string \<times> string)" where
  "unpackHealthStoreKey targetKey =
     (let colon = IndexByte targetKey (CHR '':'') in
      if colon > 0 then
        (case sliceTo targetKey colon of
           Inl p \<Rightarrow> Inl p
         | Inr host \<Rightarrow>
             (case sliceFrom targetKey (colon + 1) of
                Inl p \<Rightarrow> Inl p
              | Inr portText \<Rightarrow> Inr (host, portText)))
      else Inr ([], []))"

text \<open>
  The part of \<^verbatim>\<open>cslb\<close> that the functions below read and write: the configuration, the
  SRV cache, the health cache, and the list of targets for which a prober goroutine was started
  (\<^verbatim>\<open>go t.fetchAndRunHealthCheck(key, ceh)\<close>), in the order they were started.
\<close>

record cslb = config +
  srvStore :: "string \<rightharpoonup> ceSRV"
  healthStore :: "string \<rightharpoonup> ceHealth"
  probers :: "string list"

text \<open>The body of \<^verbatim>\<open>if ceh == nil { ... }\<close>, shared by the two functions that create records.\<close>

definition createHealth :: "cslb \<Rightarrow> Time \<Rightarrow> string \<Rightarrow> cslb" where
  "createHealth t now healthStoreKey =
     t\<lparr> healthStore := (healthStore t)(healthStoreKey \<mapsto> newCeHealth (Add now (HealthTTL t))),
        probers := (if \<not> DisableHealthChecks t then probers t @ [healthStoreKey] else probers t) \<rparr>"

fun populateHealthStore :: "cslb \<Rightarrow> Time \<Rightarrow> string list \<Rightarrow> cslb" where
  "populateHealthStore t now [] = t"
| "populateHealthStore t now (healthStoreKey # rest) =
     populateHealthStore
       (case healthStore t healthStoreKey of
          None \<Rightarrow> createHealth t now healthStoreKey
        | Some ceh \<Rightarrow> t)
       now rest"

definition setDialResult :: "cslb \<Rightarrow> Time \<Rightarrow> string \<Rightarrow> int \<Rightarrow> string option \<Rightarrow> cslb" where
  "setDialResult t now host portNo err =
     (let healthStoreKey = makeHealthStoreKey host portNo;
          t1 = (case healthStore t healthStoreKey of
                  None \<Rightarrow> createHealth t now healthStoreKey
                | Some ceh \<Rightarrow> t);
          ceh = the (healthStore t1 healthStoreKey);
          ceh1 = ceh\<lparr> lastDialAttempt := now \<rparr>;
          ceh2 = (case err of
                    None \<Rightarrow> ceh1\<lparr> goodDials := goodDials ceh1 + 1,
                                   nextDialAttempt := zeroTime,
                                   lastDialStatus := [] \<rparr>
                  | Some e \<Rightarrow> ceh1\<lparr> failedDials := failedDials ceh1 + 1,
                                    nextDialAttempt := Add now (DialVetoDuration t),
                                    lastDialStatus := e \<rparr>)
      in t1\<lparr> healthStore := (healthStore t1)(healthStoreKey \<mapsto> ceh2) \<rparr>)"

subsection \<open>The SRV cache: population (\<^verbatim>\<open>srv.go\<close>)\<close>

definition healthStoreKey :: "ceTarget \<Rightarrow> string" where
  "healthStoreKey t = makeHealthStoreKey (target t) (port t)"

text \<open>
  \<^verbatim>\<open>sort.Slice(srvs, func(i, j int) bool { return srvs[i].Priority < srvs[j].Priority })\<close>.
  Go promises that the result \<open>ss\<close> holds the records of \<open>srvs\<close> in ascending order of
  priority (\<open>sortedByPriority\<close>), and does not promise a stable sort. \<open>sortSlice\<close> is one
  such result, the insertion sort of the list library, which is what Go runs on short
  slices. The properties of population below are proved of \<open>populateLoops\<close> on every list
  that \<open>sortedByPriority\<close> admits, so they hold for whatever order \<^verbatim>\<open>sort.Slice\<close> leaves the
  records of one priority in.
\<close>

definition sortedByPriority :: "SRV list \<Rightarrow> SRV list \<Rightarrow> bool" where
  "sortedByPriority srvs ss \<longleftrightarrow>
     mset ss = mset srvs \<and> sorted (map (\<lambda>srv. uint (Priority srv)) ss)"

definition sortSlice :: "SRV list \<Rightarrow> SRV list" where
  "sortSlice srvs = sort_key (\<lambda>srv. uint (Priority srv)) srvs"

definition newCePriority :: "SRV \<Rightarrow> cePriority" where
  "newCePriority srv = \<lparr> priority = uint (Priority srv), totalWeight = 0, targets = [] \<rparr>"

definition newCeTarget :: "SRV \<Rightarrow> ceTarget" where
  "newCeTarget srv = \<lparr> weight = uint (Weight srv) * smallChanceMultiplier,
                        port = uint (Port srv),
                        target = ToLower (Target srv) \<rparr>"

text \<open>\<^verbatim>\<open>cep.targets = append(cep.targets, cet); cep.totalWeight += cet.weight\<close>\<close>

definition addTarget :: "cePriority \<Rightarrow> ceTarget \<Rightarrow> cePriority" where
  "addTarget cep cet = cep\<lparr> targets := targets cep @ [cet],
                            totalWeight := totalWeight cep + weight cet \<rparr>"

definition current :: "cePriority option \<Rightarrow> cePriority list" where
  "current cep = (case cep of None \<Rightarrow> [] | Some c \<Rightarrow> [c])"

text \<open>
  The first loop of \<^verbatim>\<open>populate\<close>. The pointer \<^verbatim>\<open>cep\<close> is \<^verbatim>\<open>nil\<close> or points at the last
  element of \<^verbatim>\<open>t.priorities\<close>; the model keeps that element apart (\<open>cep\<close>) from the ones
  before it (\<open>ps\<close>), so that \<^verbatim>\<open>t.priorities\<close> is \<open>ps @ current cep\<close>.
\<close>

fun groupLoop :: "cePriority list \<Rightarrow> cePriority option \<Rightarrow> SRV list \<Rightarrow> cePriority list" where
  "groupLoop ps cep [] = ps @ current cep"
| "groupLoop ps cep (srv # srvs) =
     (if length (Target srv) = 0 then groupLoop ps cep srvs
      else if cep = None \<or> uint (Priority srv) \<noteq> priority (the cep)
      then groupLoop (ps @ current cep) (Some (addTarget (newCePriority srv) (newCeTarget srv))) srvs
      else groupLoop ps (Some (addTarget (the cep) (newCeTarget srv))) srvs)"

definition zeroWeightEntryCount :: "ceTarget list \<Rightarrow> int" where
  "zeroWeightEntryCount ts = int (length (filter (\<lambda>cet. weight cet = 0) ts))"

text \<open>
  The last loop of \<^verbatim>\<open>populate\<close>, over the targets of one priority: every target of weight
  zero gets \<open>verySmall\<close>, which is added to the total each time.
\<close>

fun assignLoop :: "int \<Rightarrow> ceTarget list \<Rightarrow> int \<Rightarrow> ceTarget list \<times> int" where
  "assignLoop verySmall [] totalW = ([], totalW)"
| "assignLoop verySmall (cet # rest) totalW =
     (if weight cet = 0
      then (case assignLoop verySmall rest (totalW + verySmall) of
              (ts, tot) \<Rightarrow> (cet\<lparr> weight := verySmall \<rparr> # ts, tot))
      else (case assignLoop verySmall rest totalW of
              (ts, tot) \<Rightarrow> (cet # ts, tot)))"

text \<open>Go's \<^verbatim>\<open>/\<close> on \<^verbatim>\<open>int\<close> truncates towards zero: \<open>sdiv\<close>.\<close>

definition verySmallOf :: "int \<Rightarrow> int \<Rightarrow> int" where
  "verySmallOf totalW zeroCount =
     (let verySmall = totalW sdiv smallChanceMultiplier;
          verySmall = (verySmall + zeroCount - 1) sdiv zeroCount
      in if verySmall = 0 then 1 else verySmall)"

text \<open>The body of the second loop of \<^verbatim>\<open>populate\<close>, for one priority.\<close>

definition assignZeroWeights :: "cePriority \<Rightarrow> cePriority" where
  "assignZeroWeights cep =
     (if zeroWeightEntryCount (targets cep) = 0 then cep
      else (case assignLoop (verySmallOf (totalWeight cep) (zeroWeightEntryCount (targets cep)))
                   (targets cep) (totalWeight cep) of
              (ts, tot) \<Rightarrow> cep\<lparr> targets := ts, totalWeight := tot \<rparr>))"

text \<open>\<^verbatim>\<open>populate\<close> after its first statement: the two loops, over the sorted list \<open>ss\<close>.\<close>

definition populateLoops :: "ceSRV \<Rightarrow> SRV list \<Rightarrow> ceSRV" where
  "populateLoops t ss =
     t\<lparr> priorities := map assignZeroWeights (groupLoop (priorities t) None ss) \<rparr>"

definition populate :: "ceSRV \<Rightarrow> SRV list \<Rightarrow> ceSRV" where
  "populate t srvs = populateLoops t (sortSlice srvs)"

text \<open>
  \<^verbatim>\<open>uniqueTargetKeys\<close> collects the keys in a Go map and returns them in the map's
  iteration order, which is not specified; the model lists each key once, in the order of
  its first target.
\<close>

definition allTargets :: "ceSRV \<Rightarrow> ceTarget list" where
  "allTargets t = concat (map targets (priorities t))"

definition uniqueTargetKeys :: "ceSRV \<Rightarrow> string list" where
  "uniqueTargetKeys t = remdups (map healthStoreKey (allTargets t))"

definition uniqueTargets :: "ceSRV \<Rightarrow> int" where
  "uniqueTargets t = uniqueTargetCount t"

text \<open>The composite literal \<^verbatim>\<open>&ceSRV{expires: e, lookups: 1}\<close> of \<^verbatim>\<open>lookupSRV\<close>.\<close>

definition newCeSRV :: "Time \<Rightarrow> ceSRV" where
  "newCeSRV e = \<lparr> ceSRV.expires = e, lookups = 1, priorities = [], uniqueTargetCount = 0 \<rparr>"

text \<open>
  \<^verbatim>\<open>lookupSRV\<close>. The resolver is \<^verbatim>\<open>t.netResolver.LookupSRV(ctx, "", "", key)\<close>, which returns
  a list of records and an error; the source drops the error (\<^verbatim>\<open>_, srvList, _ :=\<close>).
  On a hit the counter of the cached entry is bumped through the pointer.
\<close>

definition lookupSRV ::
  "cslb \<Rightarrow> (string \<Rightarrow> SRV list \<times> string option) \<Rightarrow> Time \<Rightarrow> string \<Rightarrow> string \<Rightarrow> string \<Rightarrow> ceSRV \<times> cslb"
where
  "lookupSRV t LookupSRV now service proto domain =
     (let key = ToLower (''_'' @ service @ ''._'' @ proto @ ''.'' @ domain) in
      case srvStore t key of
        Some cesrv \<Rightarrow>
          (let cesrv1 = cesrv\<lparr> lookups := lookups cesrv + 1 \<rparr>
           in (cesrv1, t\<lparr> srvStore := (srvStore t)(key \<mapsto> cesrv1) \<rparr>))
      | None \<Rightarrow>
          (let cesrv0 = newCeSRV (Add now (NotFoundSRVTTL t));
               srvList = fst (LookupSRV key);
               cesrv1 = (if length srvList > 0
                         then populate (cesrv0\<lparr> ceSRV.expires := Add now (FoundSRVTTL t) \<rparr>) srvList
                         else cesrv0);
               targetKeys = uniqueTargetKeys cesrv1;
               cesrv2 = cesrv1\<lparr> uniqueTargetCount := int (length targetKeys) \<rparr>;
               t1 = t\<lparr> srvStore := (srvStore t)(key \<mapsto> cesrv2) \<rparr>
           in (cesrv2, populateHealthStore t1 now targetKeys)))"

subsection \<open>The selector (\<^verbatim>\<open>bestTarget\<close> in \<^verbatim>\<open>srv.go\<close>)\<close>

text \<open>The zero value \<^verbatim>\<open>&net.SRV{}\<close>.\<close>

definition emptySRV :: SRV where
  "emptySRV = \<lparr> Target = [], Port = 0, Priority = 0, Weight = 0 \<rparr>"

text \<open>
  The four assignments to \<^verbatim>\<open>srv\<close> that the source repeats at each of its three choices.
  \<^verbatim>\<open>uint16(cet.weight) / smallChanceMultiplier\<close> converts first and divides second.
\<close>

definition synthesize :: "cePriority \<Rightarrow> ceTarget \<Rightarrow> SRV" where
  "synthesize cep cet = \<lparr> Target = target cet,
                        Port = word_of_int (port cet),
                        Priority = word_of_int (priority cep),
                        Weight = (word_of_int (weight cet) :: 16 word) div 1000 \<rparr>"

text \<open>\<^verbatim>\<open>ceh == nil || ceh.isGood(now)\<close>\<close>

definition eligible :: "(string \<rightharpoonup> ceHealth) \<Rightarrow> Time \<Rightarrow> ceTarget \<Rightarrow> bool" where
  "eligible cache now cet =
     (case cache (healthStoreKey cet) of None \<Rightarrow> True | Some ceh \<Rightarrow> isGood ceh now)"

datatype ('r, 's) loop = Return 'r | Next 's

text \<open>
  The inner loop of the first search, over the targets of one priority. Its state is
  \<open>lower\<close>, \<open>upper\<close>, \<open>haveSecondChoice\<close> and the \<open>srv\<close> under construction.
\<close>

fun scanTargets ::
  "(string \<rightharpoonup> ceHealth) \<Rightarrow> Time \<Rightarrow> int \<Rightarrow> cePriority \<Rightarrow> ceTarget list \<Rightarrow>
   int \<Rightarrow> int \<Rightarrow> bool \<Rightarrow> SRV \<Rightarrow> (SRV, bool \<times> SRV) loop"
where
  "scanTargets cache now wix cep [] lower upper haveSecondChoice srv =
     Next (haveSecondChoice, srv)"
| "scanTargets cache now wix cep (cet # rest) lower upper0 haveSecondChoice srv =
     (let upper = upper0 + weight cet in
      if eligible cache now cet then
        if wix \<ge> lower \<and> wix < upper then Return (synthesize cep cet)
        else if \<not> haveSecondChoice
        then scanTargets cache now wix cep rest upper upper True (synthesize cep cet)
        else scanTargets cache now wix cep rest upper upper haveSecondChoice srv
      else scanTargets cache now wix cep rest upper upper haveSecondChoice srv)"

text \<open>
  The outer loop of the first search. \<^verbatim>\<open>t.randIntn\<close> is called once for each priority
  visited; \<open>randIntn k n\<close> is what its call number \<open>k\<close> (from 0) returns on argument \<open>n\<close>,
  so the generator may answer the same argument differently each time.
\<close>

fun scanPriorities ::
  "(string \<rightharpoonup> ceHealth) \<Rightarrow> Time \<Rightarrow> (nat \<Rightarrow> int \<Rightarrow> int) \<Rightarrow> nat \<Rightarrow> cePriority list \<Rightarrow>
   bool \<Rightarrow> SRV \<Rightarrow> (SRV, SRV) loop"
where
  "scanPriorities cache now randIntn k [] haveSecondChoice srv = Next srv"
| "scanPriorities cache now randIntn k (cep # rest) haveSecondChoice srv =
     (let wix = randIntn k (totalWeight cep) in
      case scanTargets cache now wix cep (targets cep) 0 0 haveSecondChoice srv of
        Return s \<Rightarrow> Return s
      | Next (have1, srv1) \<Rightarrow>
          if have1 then Return srv1
          else scanPriorities cache now randIntn (k + 1) rest have1 srv1)"

text \<open>The second search, for the least worst target. Its state is \<open>srv\<close> and \<open>smallestLeastWorst\<close>.\<close>

fun leastWorstTargets ::
  "(string \<rightharpoonup> ceHealth) \<Rightarrow> Time \<Rightarrow> cePriority \<Rightarrow> ceTarget list \<Rightarrow> SRV \<times> Time \<Rightarrow> SRV \<times> Time"
where
  "leastWorstTargets cache now cep [] st = st"
| "leastWorstTargets cache now cep (cet # rest) (srv, smallestLeastWorst) =
     (let nextAttempt = (case cache (healthStoreKey cet) of
                           None \<Rightarrow> now
                         | Some ceh \<Rightarrow> nextDialAttempt ceh)
      in if IsZero smallestLeastWorst \<or> Before nextAttempt smallestLeastWorst
         then leastWorstTargets cache now cep rest (synthesize cep cet, nextAttempt)
         else leastWorstTargets cache now cep rest (srv, smallestLeastWorst))"

fun leastWorstPriorities ::
  "(string \<rightharpoonup> ceHealth) \<Rightarrow> Time \<Rightarrow> cePriority list \<Rightarrow> SRV \<times> Time \<Rightarrow> SRV \<times> Time"
where
  "leastWorstPriorities cache now [] st = st"
| "leastWorstPriorities cache now (cep # rest) st =
     leastWorstPriorities cache now rest (leastWorstTargets cache now cep (targets cep) st)"

text \<open>
  \<^verbatim>\<open>bestTarget\<close>: \<open>None\<close> is the \<^verbatim>\<open>nil\<close> return. \<open>now\<close> is the \<^verbatim>\<open>time.Now()\<close> of the call; the
  health cache is read under one read lock, so it does not change during the call.
\<close>

definition bestTarget :: "cslb \<Rightarrow> (nat \<Rightarrow> int \<Rightarrow> int) \<Rightarrow> Time \<Rightarrow> ceSRV \<Rightarrow> SRV option" where
  "bestTarget t randIntn now cesrv =
     (if length (priorities cesrv) = 0 then None
      else (case scanPriorities (healthStore t) now randIntn 0 (priorities cesrv) False emptySRV of
              Return srv \<Rightarrow> Some srv
            | Next srv \<Rightarrow>
                Some (fst (leastWorstPriorities (healthStore t) now (priorities cesrv)
                             (srv, zeroTime)))))"

subsection \<open>The health prober (\<^verbatim>\<open>fetchAndRunHealthCheck\<close> in \<^verbatim>\<open>health.go\<close>)\<close>

text \<open>
  What \<^verbatim>\<open>t.hcClient.Get(hcURL)\<close> followed by \<^verbatim>\<open>ioutil.ReadAll(resp.Body)\<close> can give: an error
  and no response, or a response with its \<^verbatim>\<open>StatusCode\<close>, its \<^verbatim>\<open>Status\<close> text and the outcome
  of reading the body (\<open>Inl\<close> a read error, \<open>Inr\<close> the bytes).
\<close>

datatype getResult = GetError string | Response int string "string + string"

datatype worker = Exits | Continues

text \<open>
  One pass through the body of the prober's \<^verbatim>\<open>for\<close> loop, after the sleep: \<open>expiry\<close> is the
  copy of \<^verbatim>\<open>ceh.expires\<close> taken before the loop, \<open>now\<close> the \<^verbatim>\<open>time.Now()\<close> of the pass, \<open>ceh\<close>
  the record as it stands when the pass takes the lock. The prober writes through its
  pointer to the record, whether or not the cache still holds it.
\<close>

definition healthCheckPass ::
  "('a config_scheme) \<Rightarrow> Time \<Rightarrow> Time \<Rightarrow> getResult \<Rightarrow> ceHealth \<Rightarrow> ceHealth \<times> worker"
where
  "healthCheckPass t expiry now got ceh =
     (if Before expiry now then (ceh, Exits)
      else (case got of
              GetError e \<Rightarrow>
                (ceh\<lparr> unHealthy := True, lastHealthCheck := now, lastHealthCheckStatus := e \<rparr>,
                 Exits)
            | Response StatusCode Status body \<Rightarrow>
                (case body of
                   Inl readError \<Rightarrow> (ceh, Continues)
                 | Inr bytes \<Rightarrow>
                     (let ok = (StatusCode = 200 \<and> Contains bytes (HealthCheckContentOk t))
                      in (ceh\<lparr> unHealthy := \<not> ok, lastHealthCheck := now,
                                lastHealthCheckStatus := Status \<rparr>,
                          Continues)))))"

text \<open>
  The loop, run over the passes that happen in some stretch of time: each is a \<open>now\<close> and
  what the GET gave. It stops at the first pass that exits; \<open>Continues\<close> says that the
  worker is still looping after the last pass given.
\<close>

fun healthCheckLoop ::
  "('a config_scheme) \<Rightarrow> Time \<Rightarrow> (Time \<times> getResult) list \<Rightarrow> ceHealth \<Rightarrow> ceHealth \<times> worker"
where
  "healthCheckLoop t expiry [] ceh = (ceh, Continues)"
| "healthCheckLoop t expiry ((now, got) # rest) ceh =
     (case healthCheckPass t expiry now got ceh of
        (ceh1, Exits) \<Rightarrow> (ceh1, Exits)
      | (ceh1, Continues) \<Rightarrow> healthCheckLoop t expiry rest ceh1)"

text \<open>
  \<^verbatim>\<open>fetchAndRunHealthCheck\<close>, run on its own over the passes given. \<open>LookupTXT\<close> is
  \<^verbatim>\<open>t.netResolver.LookupTXT\<close> with its list of strings and its error, \<open>urlParses u\<close> says that
  \<^verbatim>\<open>url.Parse(u)\<close> returns no error.
\<close>

definition fetchAndRunHealthCheck ::
  "cslb \<Rightarrow> (string \<Rightarrow> string list \<times> string option) \<Rightarrow> (string \<Rightarrow> bool) \<Rightarrow>
   (Time \<times> getResult) list \<Rightarrow> string \<Rightarrow> ceHealth \<Rightarrow> panic + (ceHealth \<times> worker)"
where
  "fetchAndRunHealthCheck t LookupTXT urlParses passes targetKey ceh =
     (case unpackHealthStoreKey targetKey of
        Inl p \<Rightarrow> Inl p
      | Inr (host, portText) \<Rightarrow>
          (let qName = ''_'' @ portText @ HealthCheckTXTPrefix t @ host in
           case LookupTXT qName of
             (txts, Some e) \<Rightarrow> Inr (ceh, Exits)
           | (txts, None) \<Rightarrow>
               (let hcURL = concat txts in
                if length hcURL = 0 then Inr (ceh, Exits)
                else (let ceh1 = ceh\<lparr> url := hcURL \<rparr>; expiry = ceHealth.expires ceh1 in
                      if \<not> urlParses hcURL then Inr (ceh1, Exits)
                      else Inr (healthCheckLoop t expiry passes ceh1)))))"

subsection \<open>The dial interceptor (\<^verbatim>\<open>dial.go\<close>)\<close>

text \<open>
  \<^verbatim>\<open>extractHostPort\<close>. \<open>ParseIP host\<close> stands for \<^verbatim>\<open>net.ParseIP(host) != nil\<close> of the Go
  standard library. \<open>Inl\<close> is the run time panic of an index out of range.
\<close>

definition extractHostPort :: "(string \<Rightarrow> bool) \<Rightarrow> string \<Rightarrow> panic + (string \<times> string)" where
  "extractHostPort ParseIP address =
     (case byteAt address 0 of
        Inl p \<Rightarrow> Inl p
      | Inr c \<Rightarrow>
          if c = CHR ''['' then Inr ([], [])
          else (let lastColon = LastIndex address (CHR '':'') in
                if lastColon < 1 then Inr ([], [])
                else if lastColon + 1 = int (length address) then Inr ([], [])
                else (case sliceTo address lastColon of
                        Inl p \<Rightarrow> Inl p
                      | Inr host \<Rightarrow>
                          (case sliceFrom address (lastColon + 1) of
                             Inl p \<Rightarrow> Inl p
                           | Inr portText \<Rightarrow>
                               if ParseIP host then Inr ([], []) else Inr (host, portText)))))"

text \<open>The counters of \<^verbatim>\<open>cslbStats\<close> that the interceptor bumps.\<close>

record cslbStats =
  DialContext :: int
  MissHostService :: int
  NoSRV :: int
  BestTarget :: int
  DupesStopped :: int
  GoodDials :: int
  FailedDials :: int

definition noStats :: cslbStats where
  "noStats = \<lparr> DialContext = 0, MissHostService = 0, NoSRV = 0, BestTarget = 0,
                DupesStopped = 0, GoodDials = 0, FailedDials = 0 \<rparr>"

text \<open>
  \<^verbatim>\<open>dialResult\<close>: a connection is represented by the network and address it was dialled to.
\<close>

record dialResult =
  conn :: "(string \<times> string) option"
  err :: "string option"

text \<open>
  What surrounds one pass of the loop of \<^verbatim>\<open>dialIterate\<close>: the clock and random numbers that
  \<^verbatim>\<open>bestTarget\<close> sees, what \<^verbatim>\<open>t.systemDialContext(ctx, network, newAddress)\<close> answers
  (\<open>None\<close>: connected), the clock after the dial, and what other goroutines (probers, other
  dials, the cleaner) did to the health cache before \<^verbatim>\<open>bestTarget\<close> took its lock and before
  \<^verbatim>\<open>setDialResult\<close> took its own.
\<close>

record passEnv =
  othersBeforeSelect :: "(string \<rightharpoonup> ceHealth) \<Rightarrow> (string \<rightharpoonup> ceHealth)"
  selectNow :: Time
  randIntn :: "nat \<Rightarrow> int \<Rightarrow> int"
  systemDialContext :: "string \<Rightarrow> string \<Rightarrow> string option"
  othersBeforeRecord :: "(string \<rightharpoonup> ceHealth) \<Rightarrow> (string \<rightharpoonup> ceHealth)"
  dialNow :: Time

text \<open>\<^verbatim>\<open>fmt.Sprintf("%s:%d", srv.Target, int(srv.Port))\<close>\<close>

definition addressOf :: "SRV \<Rightarrow> string" where
  "addressOf srv = Target srv @ '':'' @ FormatInt (uint (Port srv))"

text \<open>The verb \<^verbatim>\<open>%s\<close> on an \<^verbatim>\<open>error\<close>, which may be \<^verbatim>\<open>nil\<close>.\<close>

definition showError :: "string option \<Rightarrow> string" where
  "showError e = (case e of None \<Rightarrow> ''%!s(<nil>)'' | Some m \<Rightarrow> m)"

definition allFailed :: "string \<Rightarrow> string \<Rightarrow> string list \<Rightarrow> string option \<Rightarrow> string" where
  "allFailed address newAddress dupes lastError =
     ''cslb: All unique targets failed for '' @ address @ ''/'' @ newAddress @
     ''. Tried: '' @ FormatInt (int (length dupes)) @ ''. Last Error: '' @ showError lastError"

text \<open>
  Every address that \<^verbatim>\<open>bestTarget\<close> can hand to \<^verbatim>\<open>dialIterate\<close> on a view: those synthesized
  from its targets, and that of the empty descriptor.
\<close>

definition candidates :: "ceSRV \<Rightarrow> string list" where
  "candidates cesrv =
     addressOf emptySRV #
     concat (map (\<lambda>cep. map (\<lambda>cet. addressOf (synthesize cep cet)) (targets cep)) (priorities cesrv))"

text \<open>
  \<^verbatim>\<open>newCslb\<close> with an empty environment: the default configuration and empty caches.
\<close>

definition newCslb :: cslb where
  "newCslb = config.extend defaultConfig (cslb.fields Map.empty Map.empty [])"

text \<open>
  The record that \<^verbatim>\<open>setDialResult\<close> works on: the cached one, or the fresh one it creates
  for a target the cache does not know.
\<close>

definition cachedOrNew :: "cslb \<Rightarrow> Time \<Rightarrow> string \<Rightarrow> ceHealth" where
  "cachedOrNew t now key =
     (case healthStore t key of
        None \<Rightarrow> newCeHealth (Add now (HealthTTL t))
      | Some ceh \<Rightarrow> ceh)"

subsection \<open>What the selector can return\<close>

text \<open>
  The attempt loop below ends because \<^verbatim>\<open>bestTarget\<close> can only return descriptors that it
  synthesizes from the targets of the view, or the empty one.
\<close>

lemma scanTargets_Return:
  "scanTargets cache now wix cep ts lower upper have srv = Return s \<Longrightarrow>
   \<exists>cet \<in> set ts. s = synthesize cep cet \<and> eligible cache now cet"
  by (induction ts arbitrary: lower upper "have" srv) (auto simp: Let_def split: if_splits)

lemma scanTargets_Next:
  "scanTargets cache now wix cep ts lower upper have srv = Next (have1, srv1) \<Longrightarrow>
   (have \<longrightarrow> have1 \<and> srv1 = srv) \<and>
   (\<not> have \<and> have1 \<longrightarrow> (\<exists>cet \<in> set ts. srv1 = synthesize cep cet \<and> eligible cache now cet)) \<and>
   (\<not> have1 \<longrightarrow> srv1 = srv \<and> (\<forall>cet \<in> set ts. \<not> eligible cache now cet))"
proof (induction ts arbitrary: lower upper "have" srv)
  case Nil
  then show ?case by simp
next
  case (Cons cet ts)
  show ?case
  proof (cases "eligible cache now cet")
    case False
    with Cons.prems have "scanTargets cache now wix cep ts (upper + weight cet) (upper + weight cet) have srv
        = Next (have1, srv1)"
      by (simp add: Let_def)
    from Cons.IH [OF this] False show ?thesis by simp
  next
    case True
    note el = this
    show ?thesis
    proof (cases "have")
      case True
      with el Cons.prems have "scanTargets cache now wix cep ts (upper + weight cet) (upper + weight cet) have srv
          = Next (have1, srv1)"
        by (simp add: Let_def split: if_splits)
      from Cons.IH [OF this] True show ?thesis by simp
    next
      case False
      with el Cons.prems have "scanTargets cache now wix cep ts (upper + weight cet) (upper + weight cet) True
          (synthesize cep cet) = Next (have1, srv1)"
        by (simp add: Let_def split: if_splits)
      from Cons.IH [OF this] False el show ?thesis by simp
    qed
  qed
qed

lemma scanPriorities_Return:
  "scanPriorities cache now rnd k ps False srv = Return s \<Longrightarrow>
   \<exists>cep \<in> set ps. \<exists>cet \<in> set (targets cep). s = synthesize cep cet \<and> eligible cache now cet"
proof (induction ps arbitrary: k srv)
  case Nil
  then show ?case by simp
next
  case (Cons cep ps)
  show ?case
  proof (cases "scanTargets cache now (rnd k (totalWeight cep)) cep (targets cep) 0 0 False srv")
    case (Return s')
    with Cons.prems have "s' = s" by (simp add: Let_def)
    with scanTargets_Return [OF Return] show ?thesis by auto
  next
    case (Next st)
    obtain have1 srv1 where st: "st = (have1, srv1)" by (cases st)
    note N = Next [unfolded st]
    show ?thesis
    proof (cases have1)
      case True
      with Cons.prems N have "srv1 = s" by (simp add: Let_def)
      with scanTargets_Next [OF N] True show ?thesis by auto
    next
      case False
      with Cons.prems N have "scanPriorities cache now rnd (k + 1) ps False srv1 = Return s"
        by (simp add: Let_def)
      from Cons.IH [OF this] show ?thesis by auto
    qed
  qed
qed

lemma scanPriorities_Next:
  "scanPriorities cache now rnd k ps False srv = Next s \<Longrightarrow>
   s = srv \<and> (\<forall>cep \<in> set ps. \<forall>cet \<in> set (targets cep). \<not> eligible cache now cet)"
proof (induction ps arbitrary: k srv)
  case Nil
  then show ?case by simp
next
  case (Cons cep ps)
  show ?case
  proof (cases "scanTargets cache now (rnd k (totalWeight cep)) cep (targets cep) 0 0 False srv")
    case (Return s')
    with Cons.prems show ?thesis by (simp add: Let_def)
  next
    case (Next st)
    obtain have1 srv1 where st: "st = (have1, srv1)" by (cases st)
    note N = Next [unfolded st]
    from Cons.prems N have nh: "\<not> have1"
      and rec: "scanPriorities cache now rnd (k + 1) ps False srv1 = Next s"
      by (simp_all add: Let_def split: if_splits)
    from scanTargets_Next [OF N] nh Cons.IH [OF rec] show ?thesis by simp
  qed
qed

lemma leastWorstTargets_from:
  "fst (leastWorstTargets cache now cep ts (srv, slw)) = srv \<or>
   (\<exists>cet \<in> set ts. fst (leastWorstTargets cache now cep ts (srv, slw)) = synthesize cep cet)"
  by (induction ts arbitrary: srv slw) (auto simp: Let_def)


lemma leastWorstPriorities_from:
  "fst (leastWorstPriorities cache now ps st) = fst st \<or>
   (\<exists>cep \<in> set ps. \<exists>cet \<in> set (targets cep).
      fst (leastWorstPriorities cache now ps st) = synthesize cep cet)"
proof (induction ps arbitrary: st)
  case Nil
  show ?case by simp
next
  case (Cons cep ps)
  obtain srv slw where st: "st = (srv, slw)" by (cases st)
  from Cons.IH [of "leastWorstTargets cache now cep (targets cep) st"]
       leastWorstTargets_from [of cache now cep "targets cep" srv slw]
  show ?case unfolding st by auto
qed

lemma leastWorstPriorities_taken:
  "IsZero (snd st) \<Longrightarrow> concat (map targets ps) \<noteq> [] \<Longrightarrow>
   \<exists>cep \<in> set ps. \<exists>cet \<in> set (targets cep).
      fst (leastWorstPriorities cache now ps st) = synthesize cep cet"
proof (induction ps arbitrary: st)
  case Nil
  then show ?case by simp
next
  case (Cons cep ps)
  obtain srv slw where st: "st = (srv, slw)" by (cases st)
  show ?case
  proof (cases "targets cep")
    case Nil
    with Cons.prems Cons.IH [of st] show ?thesis by simp
  next
    case (Cons cet rest)
    define na where "na = (case cache (healthStoreKey cet) of None \<Rightarrow> now | Some ceh \<Rightarrow> nextDialAttempt ceh)"
    define st1 where "st1 = leastWorstTargets cache now cep rest (synthesize cep cet, na)"
    have step: "leastWorstTargets cache now cep (targets cep) st = st1"
      using Cons.prems(1) by (simp add: Cons st st1_def na_def Let_def)
    have "fst st1 = synthesize cep cet \<or> (\<exists>c \<in> set rest. fst st1 = synthesize cep c)"
      unfolding st1_def by (rule leastWorstTargets_from)
    then have in1: "\<exists>c \<in> set (targets cep). fst st1 = synthesize cep c"
      by (auto simp: Cons)
    from leastWorstPriorities_from [of cache now ps st1] in1 show ?thesis
      by (auto simp: step)
  qed
qed

lemma bestTarget_None_iff:
  "bestTarget t rnd now cesrv = None \<longleftrightarrow> priorities cesrv = []"
  by (simp add: bestTarget_def split: loop.splits)

lemma bestTarget_Some:
  assumes "bestTarget t rnd now cesrv = Some srv"
  shows "srv = emptySRV \<or>
     (\<exists>cep \<in> set (priorities cesrv). \<exists>cet \<in> set (targets cep). srv = synthesize cep cet)"
proof (cases "scanPriorities (healthStore t) now rnd 0 (priorities cesrv) False emptySRV")
  case (Return s)
  with assms have "s = srv" by (simp add: bestTarget_def split: if_splits)
  with scanPriorities_Return [OF Return] show ?thesis by blast
next
  case (Next s)
  with assms have "srv = fst (leastWorstPriorities (healthStore t) now (priorities cesrv) (s, zeroTime))"
    by (simp add: bestTarget_def split: if_splits)
  moreover have "s = emptySRV" using scanPriorities_Next [OF Next] by simp
  ultimately show ?thesis
    using leastWorstPriorities_from [of "healthStore t" now "priorities cesrv" "(emptySRV, zeroTime)"]
    by auto
qed

lemma bestTarget_of_targets:
  assumes "bestTarget t rnd now cesrv = Some srv" and "allTargets cesrv \<noteq> []"
  shows "\<exists>cep \<in> set (priorities cesrv). \<exists>cet \<in> set (targets cep). srv = synthesize cep cet"
proof (cases "scanPriorities (healthStore t) now rnd 0 (priorities cesrv) False emptySRV")
  case (Return s)
  with assms have "s = srv" by (simp add: bestTarget_def split: if_splits)
  with scanPriorities_Return [OF Return] show ?thesis by blast
next
  case (Next s)
  with assms have "srv = fst (leastWorstPriorities (healthStore t) now (priorities cesrv) (s, zeroTime))"
    by (simp add: bestTarget_def split: if_splits)
  with leastWorstPriorities_taken [of "(s, zeroTime)" "priorities cesrv" "healthStore t" now] assms(2)
  show ?thesis by (simp add: IsZero_def zeroTime_def allTargets_def)
qed

lemma bestTarget_candidate:
  "bestTarget t rnd now cesrv = Some srv \<Longrightarrow> addressOf srv \<in> set (candidates cesrv)"
  by (drule bestTarget_Some) (auto simp: candidates_def)

subsection \<open>The attempt loop and the interceptor (\<^verbatim>\<open>dial.go\<close>)\<close>

text \<open>
  \<^verbatim>\<open>dialIterate\<close>. Pass \<open>i\<close> of the loop runs under \<open>env i\<close>; \<open>dupes\<close> is the Go map of that
  name as the list of its keys in the order they were added, and \<open>dialled\<close> logs the calls
  of the system dialer. A \<^verbatim>\<open>nil\<close> from \<^verbatim>\<open>bestTarget\<close> would be dereferenced in the next line:
  a panic. The loop ends because every pass that goes on has added a new address to
  \<open>dupes\<close>, and \<^verbatim>\<open>bestTarget\<close> can only hand out the addresses in \<open>candidates\<close>. (The model
  takes it that each call of the system dialer returns.)
\<close>

function dialIterate ::
  "(nat \<Rightarrow> passEnv) \<Rightarrow> ceSRV \<Rightarrow> string \<Rightarrow> string \<Rightarrow> nat \<Rightarrow> cslb \<Rightarrow> string list \<Rightarrow>
   string option \<Rightarrow> cslbStats \<Rightarrow> string list \<Rightarrow>
   (panic + dialResult) \<times> cslbStats \<times> cslb \<times> string list"
where
  "dialIterate env cesrv network address i t dupes lastError ls dialled =
     (let ls1 = ls\<lparr> BestTarget := BestTarget ls + 1 \<rparr>;
          t1 = t\<lparr> healthStore := othersBeforeSelect (env i) (healthStore t) \<rparr>
      in case bestTarget t1 (randIntn (env i)) (selectNow (env i)) cesrv of
           None \<Rightarrow> (Inl NilDereference, ls1, t1, dialled)
         | Some srv \<Rightarrow>
             (let newAddress = addressOf srv in
              if newAddress \<in> set dupes
              then (Inr \<lparr> conn = None,
                          err = Some (allFailed address newAddress dupes lastError) \<rparr>,
                    ls1\<lparr> DupesStopped := DupesStopped ls1 + 1 \<rparr>, t1, dialled)
              else (let dupes1 = dupes @ [newAddress];
                        e = systemDialContext (env i) network newAddress;
                        t2 = t1\<lparr> healthStore := othersBeforeRecord (env i) (healthStore t1) \<rparr>;
                        t3 = setDialResult t2 (dialNow (env i)) (Target srv) (uint (Port srv)) e
                    in if e = None
                       then (Inr \<lparr> conn = Some (network, newAddress), err = None \<rparr>,
                             ls1\<lparr> GoodDials := GoodDials ls1 + 1 \<rparr>, t3, dialled @ [newAddress])
                       else dialIterate env cesrv network address (i + 1) t3 dupes1 e
                              (ls1\<lparr> FailedDials := FailedDials ls1 + 1 \<rparr>)
                              (dialled @ [newAddress]))))"
  by pat_completeness auto
termination
proof (relation "measure (\<lambda>(env, cesrv, network, address, i, t, dupes, lastError, ls, dialled).
                   card (set (candidates cesrv) - set dupes))")
  show "wf (measure (\<lambda>(env, cesrv, network, address, i, t, dupes, lastError, ls, dialled).
                   card (set (candidates cesrv) - set dupes)))"
    by simp
next
  fix env :: "nat \<Rightarrow> passEnv" and cesrv network address and i :: nat and t :: cslb
    and dupes :: "string list" and lastError :: "string option" and ls :: cslbStats
    and dialled :: "string list" and ls1 t1 srv newAddress dupes1 e t2 t3
  assume "t1 = t\<lparr> healthStore := othersBeforeSelect (env i) (healthStore t) \<rparr>"
    and bt: "bestTarget t1 (randIntn (env i)) (selectNow (env i)) cesrv = Some srv"
    and na: "newAddress = addressOf srv"
    and fresh: "newAddress \<notin> set dupes"
    and d1: "dupes1 = dupes @ [newAddress]"
  from bestTarget_candidate [OF bt] na have mem: "newAddress \<in> set (candidates cesrv)" by simp
  have "set (candidates cesrv) - set dupes1 \<subset> set (candidates cesrv) - set dupes"
    using mem fresh d1 by auto
  then have "card (set (candidates cesrv) - set dupes1) < card (set (candidates cesrv) - set dupes)"
    by (intro psubset_card_mono) simp_all
  then show "((env, cesrv, network, address, i + 1, t3, dupes1, e,
               ls1\<lparr> FailedDials := FailedDials ls1 + 1 \<rparr>, dialled @ [newAddress]),
              (env, cesrv, network, address, i, t, dupes, lastError, ls, dialled))
             \<in> measure (\<lambda>(env, cesrv, network, address, i, t, dupes, lastError, ls, dialled).
                   card (set (candidates cesrv) - set dupes))"
    by simp
qed


declare dialIterate.simps [simp del]

text \<open>The mapping from port to service name in \<^verbatim>\<open>dialContext\<close>.\<close>

definition serviceFor :: "cslb \<Rightarrow> string \<Rightarrow> string" where
  "serviceFor t portText =
     (if ServiceName t \<noteq> [] then ServiceName t
      else if portText = ''80'' then ''http''
      else if portText = ''443'' then ''https''
      else if AllowNumericServices t then portText
      else [])"

text \<open>\<^verbatim>\<open>addStats\<close>, on the counters.\<close>

definition addStats :: "cslbStats \<Rightarrow> cslbStats \<Rightarrow> cslbStats" where
  "addStats t ls = \<lparr> DialContext = DialContext t + DialContext ls,
                     MissHostService = MissHostService t + MissHostService ls,
                     NoSRV = NoSRV t + NoSRV ls,
                     BestTarget = BestTarget t + BestTarget ls,
                     DupesStopped = DupesStopped t + DupesStopped ls,
                     GoodDials = GoodDials t + GoodDials ls,
                     FailedDials = FailedDials t + FailedDials ls \<rparr>"

text \<open>
  What \<^verbatim>\<open>dialContext\<close> does with a request: it forwards network and address to the system
  dialer, or it returns what \<^verbatim>\<open>dialIterate\<close> sent.
\<close>

datatype dialled = Forwarded string string | Balanced dialResult

text \<open>
  \<^verbatim>\<open>dialContext\<close>. After the lookup the source starts \<^verbatim>\<open>dialIterate\<close> as a goroutine and waits
  for its result or for the end of the context, whichever comes first; the model follows
  the result of \<^verbatim>\<open>dialIterate\<close>. \<open>now\<close> is the \<^verbatim>\<open>time.Now()\<close> of the call.
\<close>

definition dialContext ::
  "cslb \<Rightarrow> (string \<Rightarrow> bool) \<Rightarrow> (string \<Rightarrow> SRV list \<times> string option) \<Rightarrow> Time \<Rightarrow>
   (nat \<Rightarrow> passEnv) \<Rightarrow> string \<Rightarrow> string \<Rightarrow> panic + (dialled \<times> cslbStats \<times> cslb)"
where
  "dialContext t ParseIP LookupSRV now env network address =
     (let ls = noStats\<lparr> DialContext := 1 \<rparr> in
      case extractHostPort ParseIP (ToLower address) of
        Inl p \<Rightarrow> Inl p
      | Inr (host, portText) \<Rightarrow>
          (let service = serviceFor t portText in
           if length host = 0 \<or> length service = 0 \<or> DisableInterception t
           then Inr (Forwarded network address, ls\<lparr> MissHostService := MissHostService ls + 1 \<rparr>, t)
           else (case lookupSRV t LookupSRV now service network host of
                   (cesrv, t1) \<Rightarrow>
                     if uniqueTargets cesrv = 0
                     then Inr (Forwarded network address, ls\<lparr> NoSRV := NoSRV ls + 1 \<rparr>, t1)
                     else (case dialIterate env cesrv network address 0 t1 [] None noStats [] of
                             (Inl p, ls2, t2, tried) \<Rightarrow> Inl p
                           | (Inr r, ls2, t2, tried) \<Rightarrow> Inr (Balanced r, addStats ls ls2, t2)))))"

subsection \<open>Notions used to state the properties\<close>

text \<open>
  The priorities as the first loop of \<^verbatim>\<open>populate\<close> leaves them on a fresh view, from the
  sorted list \<open>ss\<close>, before the zero weights are replaced.
\<close>

definition transferred :: "SRV list \<Rightarrow> cePriority list" where
  "transferred ss = groupLoop [] None ss"

text \<open>
  A priority \<open>c\<close> holds exactly the records \<open>recs\<close>, all taken from \<open>S\<close> with a target name
  and the priority of \<open>c\<close>: one target for each, in order, and their weights times 1000 as
  the total.
\<close>

definition builtFrom :: "SRV set \<Rightarrow> cePriority \<Rightarrow> SRV list \<Rightarrow> bool" where
  "builtFrom S c recs \<longleftrightarrow>
     recs \<noteq> [] \<and> set recs \<subseteq> {s \<in> S. Target s \<noteq> [] \<and> uint (Priority s) = priority c} \<and>
     targets c = map newCeTarget recs \<and>
     totalWeight c = smallChanceMultiplier * sum_list (map (\<lambda>s. uint (Weight s)) recs)"

text \<open>
  The zero weight policy in the words of the specification:
  \<open>verySmall = ceil((groupTotalWeight / 1000) / Z)\<close>, floored to 1 if that yields 0.
\<close>

definition verySmallSpec :: "int \<Rightarrow> int \<Rightarrow> int" where
  "verySmallSpec groupTotalWeight Z =
     (let c = \<lceil>(real_of_int groupTotalWeight / 1000) / real_of_int Z\<rceil> in if c = 0 then 1 else c)"

text \<open>
  The time the second search of \<^verbatim>\<open>bestTarget\<close> compares for a target: the \<open>nextDialAttempt\<close>
  of its record, or \<open>now\<close> when it has none.
\<close>

definition nextAttemptOf :: "(string \<rightharpoonup> ceHealth) \<Rightarrow> Time \<Rightarrow> ceTarget \<Rightarrow> Time" where
  "nextAttemptOf cache now cet =
     (case cache (healthStoreKey cet) of None \<Rightarrow> now | Some ceh \<Rightarrow> nextDialAttempt ceh)"

text \<open>The targets of a list of priorities, each with its priority, in the order of the search.\<close>

definition pairs :: "cePriority list \<Rightarrow> (cePriority \<times> ceTarget) list" where
  "pairs ps = concat (map (\<lambda>cep. map (Pair cep) (targets cep)) ps)"

text \<open>
  The state of the second search after the targets \<open>seen\<close>: nothing chosen and the zero time
  before the first target, afterwards a target of \<open>seen\<close> with its time, which is not zero
  and is the least among \<open>seen\<close>.
\<close>

definition leastOf ::
  "(string \<rightharpoonup> ceHealth) \<Rightarrow> Time \<Rightarrow> (cePriority \<times> ceTarget) list \<Rightarrow> SRV \<times> Time \<Rightarrow> bool"
where
  "leastOf cache now seen st \<longleftrightarrow>
     (if seen = [] then snd st = 0
      else snd st \<noteq> 0 \<and>
           (\<exists>(cep, cet) \<in> set seen. fst st = synthesize cep cet \<and> snd st = nextAttemptOf cache now cet) \<and>
           (\<forall>(cep, cet) \<in> set seen. snd st \<le> nextAttemptOf cache now cet))"

text \<open>Every port of the view is a \<^verbatim>\<open>uint16\<close> value, as \<^verbatim>\<open>populate\<close> stores them.\<close>

definition portsInRange :: "ceSRV \<Rightarrow> bool" where
  "portsInRange cesrv = list_all (\<lambda>cet. 0 \<le> port cet \<and> port cet < 65536) (allTargets cesrv)"

text \<open>
  The boundary example of the specification: one priority with a target of weight 1 and a
  target of weight 0.
\<close>

definition halfAndHalf :: "SRV list" where
  "halfAndHalf = [\<lparr> Target = ''a'', Port = 1, Priority = 0, Weight = 1 \<rparr>,
                  \<lparr> Target = ''b'', Port = 2, Priority = 0, Weight = 0 \<rparr>]"

text \<open>
  Records as the mock resolver of the tests hands them out: two priorities, and one record
  without a target name.
\<close>

definition mixedRecords :: "SRV list" where
  "mixedRecords = [\<lparr> Target = ''U1.example.com'', Port = 1443, Priority = 13, Weight = 10 \<rparr>,
                   \<lparr> Target = [], Port = 1444, Priority = 13, Weight = 100 \<rparr>,
                   \<lparr> Target = ''u7.example.com'', Port = 1444, Priority = 2, Weight = 0 \<rparr>]"

text \<open>A record of weight 70, as \<^verbatim>\<open>t14.example.net\<close> in the tests.\<close>

definition heavyRecord :: SRV where
  "heavyRecord = \<lparr> Target = ''t14.example.net'', Port = 3, Priority = 12, Weight = 70 \<rparr>"

text \<open>
  A view of one priority with three targets, and a health cache in which none of them is
  eligible at time 100: \<^verbatim>\<open>c:1\<close> and \<^verbatim>\<open>b:3\<close> failed a dial and are vetoed until 101 and 160,
  \<^verbatim>\<open>a:2\<close> was never dialled and its prober found it unhealthy.
\<close>

definition threeTargets :: ceSRV where
  "threeTargets = \<lparr> ceSRV.expires = 0, lookups = 1,
     priorities = [\<lparr> priority = 10, totalWeight = 30000,
        targets = [\<lparr> weight = 10000, port = 1, target = ''c'' \<rparr>,
                   \<lparr> weight = 10000, port = 2, target = ''a'' \<rparr>,
                   \<lparr> weight = 10000, port = 3, target = ''b'' \<rparr>] \<rparr>],
     uniqueTargetCount = 3 \<rparr>"

definition allVetoed :: cslb where
  "allVetoed = newCslb\<lparr> healthStore :=
     [''c:1'' \<mapsto> (newCeHealth 1000)\<lparr> nextDialAttempt := 101, failedDials := 1 \<rparr>,
      ''a:2'' \<mapsto> (newCeHealth 1000)\<lparr> unHealthy := True \<rparr>,
      ''b:3'' \<mapsto> (newCeHealth 1000)\<lparr> nextDialAttempt := 160, failedDials := 1 \<rparr>] \<rparr>"

text \<open>A resolver that answers every name with one record that has no target name.\<close>

definition onlyEmptyTarget :: "string \<Rightarrow> SRV list \<times> string option" where
  "onlyEmptyTarget key = ([\<lparr> Target = [], Port = 0, Priority = 0, Weight = 0 \<rparr>], None)"

text \<open>
  The exhaustion scenario of the specification: three targets of weight 0 in one priority,
  and a dialer that refuses every connection.
\<close>

definition threeZero :: "SRV list" where
  "threeZero = [\<lparr> Target = ''s1'', Port = 4000, Priority = 0, Weight = 0 \<rparr>,
                \<lparr> Target = ''s2'', Port = 4001, Priority = 0, Weight = 0 \<rparr>,
                \<lparr> Target = ''s3'', Port = 4002, Priority = 0, Weight = 0 \<rparr>]"

definition alwaysRefused :: "nat \<Rightarrow> passEnv" where
  "alwaysRefused i = \<lparr> othersBeforeSelect = (\<lambda>cache. cache), selectNow = 1000 + int i,
                       randIntn = (\<lambda>k n. 0),
                       systemDialContext = (\<lambda>network address. Some ''connection refused''),
                       othersBeforeRecord = (\<lambda>cache. cache), dialNow = 1000 + int i \<rparr>"

text \<open>
  What \<^verbatim>\<open>dialIterate\<close> hands back, in the model: the \<^verbatim>\<open>dialResult\<close> sent on the channel (or
  a panic), its counters, the state it leaves, and the addresses it passed to
  \<^verbatim>\<open>t.systemDialContext\<close>, in order.
\<close>

type_synonym iteration = "(panic + dialResult) \<times> cslbStats \<times> cslb \<times> string list"

definition dialledOf :: "iteration \<Rightarrow> string list" where
  "dialledOf out = snd (snd (snd out))"

text \<open>The error of the last dial of a run that dialled \<open>dialled\<close>, pass \<open>j\<close> under \<open>env j\<close>.\<close>

definition lastErrorOf :: "(nat \<Rightarrow> passEnv) \<Rightarrow> string \<Rightarrow> string list \<Rightarrow> string option" where
  "lastErrorOf env network dialled =
     (if dialled = [] then None
      else systemDialContext (env (length dialled - 1)) network (last dialled))"

text \<open>
  The outcome of a run of \<^verbatim>\<open>dialIterate\<close> on a view: every address dialled is a distinct
  \<open>host:port\<close> key of the view, every dial is counted as good or failed, and the run ends
  either with the connection of its last dial, or with the error that names a repeated
  address, the number of addresses tried and the last error.
\<close>

definition iterated ::
  "ceSRV \<Rightarrow> (nat \<Rightarrow> passEnv) \<Rightarrow> string \<Rightarrow> string \<Rightarrow> cslbStats \<Rightarrow> iteration \<Rightarrow> bool"
where
  "iterated cesrv env network address ls0 out =
     (case out of (res, ls, t, dialled) \<Rightarrow>
        distinct dialled \<and> set dialled \<subseteq> set (uniqueTargetKeys cesrv) \<and>
        GoodDials ls + FailedDials ls = int (length dialled) \<and>
        ((res = Inr \<lparr> conn = Some (network, last dialled), err = None \<rparr> \<and> dialled \<noteq> [] \<and>
          GoodDials ls = GoodDials ls0 + 1 \<and> DupesStopped ls = DupesStopped ls0) \<or>
         (\<exists>a. a \<in> set dialled \<and>
              res = Inr \<lparr> conn = None,
                          err = Some (allFailed address a dialled (lastErrorOf env network dialled)) \<rparr> \<and>
              GoodDials ls = GoodDials ls0 \<and> DupesStopped ls = DupesStopped ls0 + 1)))"

section \<open>Properties\<close>

subsection \<open>Recording a dial outcome\<close>

lemma newCslb_fields:
  "srvStore newCslb = Map.empty"
  "healthStore newCslb = Map.empty"
  "probers newCslb = []"
  "DisableHealthChecks newCslb = False"
  "DisableInterception newCslb = False"
  "AllowNumericServices newCslb = False"
  "ServiceName newCslb = []"
  "HealthCheckContentOk newCslb = ''OK''"
  "DialVetoDuration newCslb = Minute"
  "NotFoundSRVTTL newCslb = 20 * Minute"
  "FoundSRVTTL newCslb = 5 * Minute"
  "HealthTTL newCslb = 5 * Minute"
  by (simp_all add: newCslb_def defaultConfig_def config.defs cslb.defs)

text \<open>
  The durations of the configuration are the defaults or values that
  \<^verbatim>\<open>getAndParseDuration\<close> let through, between one second and one hour: they are positive.
\<close>

lemma lowerDurationLimit_pos: "0 < lowerDurationLimit"
  by (simp add: lowerDurationLimit_def Second_def)

lemma getAndParseDuration_limits:
  assumes "lowerDurationLimit \<le> currValue" and "currValue \<le> upperDurationLimit"
  shows "lowerDurationLimit \<le> getAndParseDuration e currValue \<and>
         getAndParseDuration e currValue \<le> upperDurationLimit"
  using assms by (auto simp: getAndParseDuration_def split: option.splits)

lemma defaultConfig_veto_within_limits:
  "lowerDurationLimit \<le> DialVetoDuration defaultConfig \<and>
   DialVetoDuration defaultConfig \<le> upperDurationLimit"
  by (simp add: defaultConfig_def lowerDurationLimit_def upperDurationLimit_def Hour_def Minute_def
      Second_def)

lemma setDialResult_at_key:
  "healthStore (setDialResult t now host portNo e) (makeHealthStoreKey host portNo) =
     Some (case e of
        None \<Rightarrow> (cachedOrNew t now (makeHealthStoreKey host portNo))\<lparr>
                  lastDialAttempt := now,
                  goodDials := goodDials (cachedOrNew t now (makeHealthStoreKey host portNo)) + 1,
                  nextDialAttempt := zeroTime, lastDialStatus := [] \<rparr>
      | Some m \<Rightarrow> (cachedOrNew t now (makeHealthStoreKey host portNo))\<lparr>
                  lastDialAttempt := now,
                  failedDials := failedDials (cachedOrNew t now (makeHealthStoreKey host portNo)) + 1,
                  nextDialAttempt := Add now (DialVetoDuration t), lastDialStatus := m \<rparr>)"
  by (simp add: setDialResult_def cachedOrNew_def createHealth_def Let_def split: option.splits)

lemma setDialResult_elsewhere:
  "k \<noteq> makeHealthStoreKey host portNo \<Longrightarrow>
   healthStore (setDialResult t now host portNo e) k = healthStore t k"
  by (simp add: setDialResult_def createHealth_def Let_def split: option.splits)

lemma key_s1_4000: "makeHealthStoreKey ''s1'' 4000 = ''s1:4000''"
  by (simp add: makeHealthStoreKey_def FormatUint.simps digitChar_def)

text \<open>
  Claim C4. Recording a dial outcome for \<open>host:port\<close> at \<open>now\<close> leaves a record under that
  key (the cached one, or a fresh one if there was none). On success its \<open>nextDialAttempt\<close>
  is the zero time and the good counter is one more; on failure its \<open>nextDialAttempt\<close> is
  \<open>now + DialVetoDuration\<close>, at least \<open>DialVetoDuration\<close> after \<open>now\<close> (strictly after, for the
  positive durations that the configuration admits), and the failed counter is one more.
  The record under any other key is unchanged.
\<close>

theorem setDialResult_outcome:
  "\<exists>ceh. healthStore (setDialResult t now host portNo e) (makeHealthStoreKey host portNo) = Some ceh \<and>
     lastDialAttempt ceh = now \<and>
     ceHealth.expires ceh = ceHealth.expires (cachedOrNew t now (makeHealthStoreKey host portNo)) \<and>
     unHealthy ceh = unHealthy (cachedOrNew t now (makeHealthStoreKey host portNo)) \<and>
     (e = None \<longrightarrow>
        nextDialAttempt ceh = zeroTime \<and>
        goodDials ceh = goodDials (cachedOrNew t now (makeHealthStoreKey host portNo)) + 1 \<and>
        failedDials ceh = failedDials (cachedOrNew t now (makeHealthStoreKey host portNo))) \<and>
     (e \<noteq> None \<longrightarrow>
        nextDialAttempt ceh = Add now (DialVetoDuration t) \<and>
        DialVetoDuration t \<le> nextDialAttempt ceh - now \<and>
        (0 < DialVetoDuration t \<longrightarrow> now < nextDialAttempt ceh) \<and>
        failedDials ceh = failedDials (cachedOrNew t now (makeHealthStoreKey host portNo)) + 1 \<and>
        goodDials ceh = goodDials (cachedOrNew t now (makeHealthStoreKey host portNo))) \<and>
     (\<forall>k. k \<noteq> makeHealthStoreKey host portNo \<longrightarrow>
        healthStore (setDialResult t now host portNo e) k = healthStore t k)"
  by (cases e) (simp_all add: setDialResult_at_key setDialResult_elsewhere Add_def)

theorem setDialResult_outcome_witness:
  "nextDialAttempt (the (healthStore (setDialResult newCslb 1000 ''s1'' 4000 (Some ''refused'')) ''s1:4000''))
     = 1000 + Minute \<and>
   0 < DialVetoDuration newCslb \<and>
   1000 < nextDialAttempt (the (healthStore (setDialResult newCslb 1000 ''s1'' 4000 (Some ''refused'')) ''s1:4000'')) \<and>
   failedDials (the (healthStore (setDialResult newCslb 1000 ''s1'' 4000 (Some ''refused'')) ''s1:4000'')) = 1 \<and>
   ''s2:4001'' \<noteq> makeHealthStoreKey ''s1'' 4000 \<and>
   healthStore (setDialResult newCslb 1000 ''s1'' 4000 (Some ''refused'')) ''s2:4001'' = None \<and>
   nextDialAttempt (the (healthStore (setDialResult newCslb 1000 ''s1'' 4000 None) ''s1:4000'')) = zeroTime \<and>
   goodDials (the (healthStore (setDialResult newCslb 1000 ''s1'' 4000 None) ''s1:4000'')) = 1"
  using setDialResult_outcome [of newCslb 1000 "''s1''" 4000 "Some ''refused''"]
        setDialResult_outcome [of newCslb 1000 "''s1''" 4000 None]
  by (auto simp: key_s1_4000 newCslb_fields cachedOrNew_def newCeHealth_def Add_def Minute_def Second_def)

subsection \<open>Strings\<close>

lemma LastIndexFrom_absent:
  "c \<notin> set xs \<Longrightarrow> LastIndexFrom c xs i found = found"
  by (induction xs arbitrary: i found) auto

lemma LastIndexFrom_present:
  "c \<in> set xs \<Longrightarrow>
   \<exists>k. LastIndexFrom c xs i found = i + int k \<and> k < length xs \<and> xs ! k = c \<and>
       c \<notin> set (drop (Suc k) xs)"
proof (induction xs arbitrary: i found)
  case Nil
  then show ?case by simp
next
  case (Cons x xs)
  show ?case
  proof (cases "c \<in> set xs")
    case True
    from Cons.IH [OF True, of "i + 1" "if x = c then i else found"]
    obtain k where k: "LastIndexFrom c xs (i + 1) (if x = c then i else found) = i + 1 + int k"
      "k < length xs" "xs ! k = c" "c \<notin> set (drop (Suc k) xs)"
      by blast
    show ?thesis
      by (rule exI [of _ "Suc k"]) (use k in simp)
  next
    case False
    with Cons.prems have xc: "x = c" by simp
    show ?thesis
      by (rule exI [of _ 0]) (use False xc in \<open>simp add: LastIndexFrom_absent\<close>)
  qed
qed

lemma LastIndex_cases:
  "(c \<notin> set s \<and> LastIndex s c = - 1) \<or>
   (\<exists>k. LastIndex s c = int k \<and> k < length s \<and> s ! k = c \<and> c \<notin> set (drop (Suc k) s))"
proof (cases "c \<in> set s")
  case True
  from LastIndexFrom_present [OF True, of 0 "- 1"] show ?thesis
    by (simp add: LastIndex_def)
next
  case False
  then show ?thesis by (simp add: LastIndex_def LastIndexFrom_absent)
qed

lemma LastIndex_lt_1_iff: "LastIndex s c < 1 \<longleftrightarrow> c \<notin> set (tl s)"
proof -
  consider (a) "c \<notin> set s" "LastIndex s c = - 1"
    | (b) k where "LastIndex s c = int k" "k < length s" "s ! k = c" "c \<notin> set (drop (Suc k) s)"
    using LastIndex_cases [of c s] by blast
  then show ?thesis
  proof cases
    case a
    then show ?thesis by (cases s) auto
  next
    case b
    show ?thesis
    proof (cases k)
      case 0
      with b show ?thesis by (cases s) (auto simp: drop_Suc)
    next
      case (Suc j)
      with b have "tl s ! j = c" "j < length (tl s)" by (cases s; simp)+
      then have "c \<in> set (tl s)" using nth_mem by blast
      with b Suc show ?thesis by simp
    qed
  qed
qed

subsection \<open>Population of the SRV view\<close>

lemma groupLoop_all:
  assumes "\<forall>c \<in> set ps. Q c" and "\<forall>c. cep = Some c \<longrightarrow> Q c"
    and new: "\<And>s. s \<in> set xs \<Longrightarrow> Target s \<noteq> [] \<Longrightarrow> Q (addTarget (newCePriority s) (newCeTarget s))"
    and add: "\<And>s c. s \<in> set xs \<Longrightarrow> Target s \<noteq> [] \<Longrightarrow> Q c \<Longrightarrow> uint (Priority s) = priority c \<Longrightarrow>
               Q (addTarget c (newCeTarget s))"
  shows "\<forall>c \<in> set (groupLoop ps cep xs). Q c"
  using assms
proof (induction xs arbitrary: ps cep)
  case Nil
  show ?case
  proof (cases cep)
    case None
    then show ?thesis using Nil.prems(1) by (simp add: current_def)
  next
    case (Some c)
    then show ?thesis using Nil.prems(1,2) by (simp add: current_def)
  qed
next
  case (Cons s xs)
  have new': "\<And>s. s \<in> set xs \<Longrightarrow> Target s \<noteq> [] \<Longrightarrow> Q (addTarget (newCePriority s) (newCeTarget s))"
    using Cons.prems(3) by simp
  have add': "\<And>s c. s \<in> set xs \<Longrightarrow> Target s \<noteq> [] \<Longrightarrow> Q c \<Longrightarrow> uint (Priority s) = priority c \<Longrightarrow>
               Q (addTarget c (newCeTarget s))"
    using Cons.prems(4) by simp
  show ?case
  proof (cases "Target s = []")
    case True
    then have eq: "groupLoop ps cep (s # xs) = groupLoop ps cep xs" by simp
    show ?thesis unfolding eq by (rule Cons.IH [OF Cons.prems(1,2) new' add'])
  next
    case False
    note ne = this
    have qn: "Q (addTarget (newCePriority s) (newCeTarget s))"
      using Cons.prems(3) [of s] ne by simp
    show ?thesis
    proof (cases "cep = None \<or> uint (Priority s) \<noteq> priority (the cep)")
      case True
      then have eq: "groupLoop ps cep (s # xs) =
          groupLoop (ps @ current cep) (Some (addTarget (newCePriority s) (newCeTarget s))) xs"
        using ne by simp
      have 1: "\<forall>c \<in> set (ps @ current cep). Q c"
      proof (cases cep)
        case None
        then show ?thesis using Cons.prems(1) by (simp add: current_def)
      next
        case (Some c)
        then show ?thesis using Cons.prems(1,2) by (simp add: current_def)
      qed
      have 2: "\<forall>c. Some (addTarget (newCePriority s) (newCeTarget s)) = Some c \<longrightarrow> Q c"
        using qn by simp
      show ?thesis unfolding eq by (rule Cons.IH [OF 1 2 new' add'])
    next
      case False
      then obtain c where c: "cep = Some c" "uint (Priority s) = priority c" by auto
      then have eq: "groupLoop ps cep (s # xs) = groupLoop ps (Some (addTarget c (newCeTarget s))) xs"
        using ne by simp
      have "Q c" using Cons.prems(2) c by simp
      then have "Q (addTarget c (newCeTarget s))"
        using Cons.prems(4) [of s c] c ne by simp
      then have 2: "\<forall>c'. Some (addTarget c (newCeTarget s)) = Some c' \<longrightarrow> Q c'"
        by simp
      show ?thesis unfolding eq by (rule Cons.IH [OF Cons.prems(1) 2 new' add'])
    qed
  qed
qed

lemma groupLoop_filter:
  "groupLoop ps cep (filter (\<lambda>s. Target s \<noteq> []) xs) = groupLoop ps cep xs"
  by (induction xs arbitrary: ps cep) simp_all

lemma groupLoop_sorted:
  assumes "sorted (map (\<lambda>s. uint (Priority s)) xs)"
    and "sorted_wrt (<) (map priority (ps @ current cep))"
    and "\<forall>c \<in> set (ps @ current cep). \<forall>s \<in> set xs. priority c \<le> uint (Priority s)"
    and "cep = None \<longrightarrow> ps = []"
  shows "sorted_wrt (<) (map priority (groupLoop ps cep xs))"
  using assms
proof (induction xs arbitrary: ps cep)
  case Nil
  then show ?case by simp
next
  case (Cons s xs)
  from Cons.prems(1) have sx: "sorted (map (\<lambda>s. uint (Priority s)) xs)"
    and le: "\<forall>s' \<in> set xs. uint (Priority s) \<le> uint (Priority s')"
    by simp_all
  have bound: "\<forall>c \<in> set (ps @ current cep). \<forall>s \<in> set xs. priority c \<le> uint (Priority s)"
    using Cons.prems(3) by simp
  show ?case
  proof (cases "Target s = []")
    case True
    then show ?thesis using Cons.IH [OF sx Cons.prems(2) bound Cons.prems(4)] by simp
  next
    case False
    note ne = this
    let ?n = "addTarget (newCePriority s) (newCeTarget s)"
    have pn: "priority ?n = uint (Priority s)" by (simp add: addTarget_def newCePriority_def)
    show ?thesis
    proof (cases "cep = None \<or> uint (Priority s) \<noteq> priority (the cep)")
      case True
      have lt: "\<forall>c \<in> set (ps @ current cep). priority c < uint (Priority s)"
      proof (cases cep)
        case None
        with Cons.prems(4) show ?thesis by (simp add: current_def)
      next
        case (Some c)
        with True have neq: "uint (Priority s) \<noteq> priority c" by simp
        from Cons.prems(3) Some have "priority c \<le> uint (Priority s)" by (simp add: current_def)
        with neq have clt: "priority c < uint (Priority s)" by simp
        from Cons.prems(2) Some have "\<forall>c' \<in> set ps. priority c' < priority c"
          by (simp add: current_def sorted_wrt_append)
        with clt show ?thesis using Some by (auto simp: current_def)
      qed
      have 2: "sorted_wrt (<) (map priority ((ps @ current cep) @ current (Some ?n)))"
        using Cons.prems(2) lt by (simp add: current_def sorted_wrt_append pn)
      have 3: "\<forall>c \<in> set ((ps @ current cep) @ current (Some ?n)). \<forall>s \<in> set xs. priority c \<le> uint (Priority s)"
        using bound le by (auto simp: current_def pn)
      from Cons.IH [OF sx 2 3] True ne show ?thesis by simp
    next
      case False
      then obtain c where c: "cep = Some c" "uint (Priority s) = priority c" by auto
      let ?a = "addTarget c (newCeTarget s)"
      have pa: "priority ?a = priority c" by (simp add: addTarget_def)
      have 2: "sorted_wrt (<) (map priority (ps @ current (Some ?a)))"
        using Cons.prems(2) c by (simp add: current_def pa)
      have 3: "\<forall>c \<in> set (ps @ current (Some ?a)). \<forall>s \<in> set xs. priority c \<le> uint (Priority s)"
        using bound c by (simp add: current_def pa)
      from Cons.IH [OF sx 2 3] c ne show ?thesis by simp
    qed
  qed
qed

lemma sortedByPriority_sortSlice: "sortedByPriority srvs (sortSlice srvs)"
  by (simp add: sortedByPriority_def sortSlice_def)

lemma sortedByPriority_set: "sortedByPriority srvs ss \<Longrightarrow> set ss = set srvs"
  by (auto simp: sortedByPriority_def dest: mset_eq_setD)

lemma sortedByPriority_filter:
  "sortedByPriority srvs ss \<Longrightarrow> length (filter P ss) = length (filter P srvs)"
proof -
  assume "sortedByPriority srvs ss"
  then have "mset (filter P ss) = mset (filter P srvs)"
    by (simp add: sortedByPriority_def)
  then show ?thesis by (rule mset_eq_length)
qed

lemma sdiv_nonneg: "0 \<le> a \<Longrightarrow> 0 < b \<Longrightarrow> a sdiv b = a div (b::int)"
  by (simp add: signed_divide_int_def sgn_if)

lemma neg_div:
  assumes "0 < (z::int)"
  shows "(a + z - 1) div z = - ((- a) div z)"
proof -
  define q r where "q = a div z" and "r = a mod z"
  have a: "a = z * q + r" by (simp add: q_def r_def)
  have r: "0 \<le> r" "r < z" using assms by (simp_all add: r_def)
  show ?thesis
  proof (cases "r = 0")
    case True
    have "a + z - 1 = z * q + (z - 1)" using a True by simp
    then have 1: "(a + z - 1) div z = q"
      using assms by (intro int_div_pos_eq [where r = "z - 1"]) simp_all
    have "- a = z * (- q) + 0" using a True by simp
    then have 2: "(- a) div z = - q"
      using assms by (intro int_div_pos_eq [where r = 0]) simp_all
    from 1 2 show ?thesis by simp
  next
    case False
    with r have rp: "0 < r" by simp
    have "a + z - 1 = z * (q + 1) + (r - 1)" using a by (simp add: algebra_simps)
    then have 1: "(a + z - 1) div z = q + 1"
      using assms rp r by (intro int_div_pos_eq [where r = "r - 1"]) simp_all
    have "- a = z * (- q - 1) + (z - r)" using a by (simp add: algebra_simps)
    then have 2: "(- a) div z = - q - 1"
      using assms rp r by (intro int_div_pos_eq [where r = "z - r"]) simp_all
    from 1 2 show ?thesis by simp
  qed
qed

lemma ceil_div: "0 < (z::int) \<Longrightarrow> (a + z - 1) div z = \<lceil>real_of_int a / real_of_int z\<rceil>"
  by (simp only: neg_div ceiling_divide_eq_div)

lemma builtFrom_new:
  "s \<in> S \<Longrightarrow> Target s \<noteq> [] \<Longrightarrow> builtFrom S (addTarget (newCePriority s) (newCeTarget s)) [s]"
  by (simp add: builtFrom_def addTarget_def newCePriority_def newCeTarget_def)

lemma builtFrom_add:
  "s \<in> S \<Longrightarrow> Target s \<noteq> [] \<Longrightarrow> uint (Priority s) = priority c \<Longrightarrow> builtFrom S c recs \<Longrightarrow>
   builtFrom S (addTarget c (newCeTarget s)) (recs @ [s])"
  by (simp add: builtFrom_def addTarget_def newCeTarget_def algebra_simps)

lemma groupLoop_built:
  "\<forall>c \<in> set (groupLoop [] None xs). \<exists>recs. builtFrom (set xs) c recs"
proof (rule groupLoop_all)
  show "\<forall>c \<in> set []. \<exists>recs. builtFrom (set xs) c recs" by simp
  show "\<forall>c. None = Some c \<longrightarrow> (\<exists>recs. builtFrom (set xs) c recs)" by simp
next
  fix s assume "s \<in> set xs" "Target s \<noteq> []"
  then show "\<exists>recs. builtFrom (set xs) (addTarget (newCePriority s) (newCeTarget s)) recs"
    using builtFrom_new by blast
next
  fix s c assume "s \<in> set xs" "Target s \<noteq> []" "\<exists>recs. builtFrom (set xs) c recs"
    "uint (Priority s) = priority c"
  then show "\<exists>recs. builtFrom (set xs) (addTarget c (newCeTarget s)) recs"
    using builtFrom_add by blast
qed

lemma weight_newCeTarget_zero: "weight (newCeTarget s) = 0 \<longleftrightarrow> Weight s = 0"
  by (simp add: newCeTarget_def smallChanceMultiplier_def uint_0_iff)

lemma zeroWeightEntryCount_new:
  "zeroWeightEntryCount (map newCeTarget recs) = int (length (filter (\<lambda>s. Weight s = 0) recs))"
  by (simp add: zeroWeightEntryCount_def filter_map o_def weight_newCeTarget_zero)

lemma sum_uint_nonneg: "0 \<le> sum_list (map (\<lambda>s. uint (Weight s)) recs)"
  by (induction recs) simp_all

lemma assignLoop_eq:
  "assignLoop vs ts tot =
     (map (\<lambda>cet. if weight cet = 0 then cet\<lparr> weight := vs \<rparr> else cet) ts,
      tot + zeroWeightEntryCount ts * vs)"
  by (induction ts arbitrary: tot) (simp_all add: zeroWeightEntryCount_def algebra_simps)

lemma verySmallOf_pos: "0 \<le> g \<Longrightarrow> 0 < z \<Longrightarrow> 0 < verySmallOf g z"
proof -
  assume g: "0 \<le> g" and z: "0 < z"
  have 1: "g sdiv smallChanceMultiplier = g div 1000"
    using g by (simp add: sdiv_nonneg smallChanceMultiplier_def)
  have 2: "0 \<le> g div 1000 + z - 1" using g z by (simp add: pos_imp_zdiv_nonneg_iff)
  then have 3: "(g div 1000 + z - 1) sdiv z = (g div 1000 + z - 1) div z"
    using z by (rule sdiv_nonneg)
  have "0 \<le> (g div 1000 + z - 1) div z" using 2 z by (simp add: pos_imp_zdiv_nonneg_iff)
  then show ?thesis by (simp add: verySmallOf_def Let_def 1 3)
qed

lemma verySmallOf_spec:
  assumes "0 \<le> n" and "0 < z"
  shows "verySmallOf (smallChanceMultiplier * n) z = verySmallSpec (smallChanceMultiplier * n) z"
proof -
  have 1: "(smallChanceMultiplier * n) sdiv smallChanceMultiplier = n"
    using assms(1) by (simp add: sdiv_nonneg smallChanceMultiplier_def)
  have 2: "(n + z - 1) sdiv z = (n + z - 1) div z"
    using assms by (intro sdiv_nonneg) simp_all
  have 3: "real_of_int (smallChanceMultiplier * n) / 1000 = real_of_int n"
    by (simp add: smallChanceMultiplier_def)
  show ?thesis
    by (simp only: verySmallOf_def verySmallSpec_def Let_def 1 2 3 ceil_div [OF assms(2)])
qed

lemma priorities_populateLoops:
  "priorities c0 = [] \<Longrightarrow> priorities (populateLoops c0 ss) = map assignZeroWeights (transferred ss)"
  by (simp add: populateLoops_def transferred_def)

lemma transferred_built:
  "c \<in> set (transferred ss) \<Longrightarrow> \<exists>recs. builtFrom (set ss) c recs"
  using groupLoop_built [of ss] by (simp add: transferred_def)

lemma priority_assignZeroWeights: "priority (assignZeroWeights c) = priority c"
  by (simp add: assignZeroWeights_def assignLoop_eq)

lemma assignZeroWeights_none:
  "zeroWeightEntryCount (targets c) = 0 \<Longrightarrow> assignZeroWeights c = c"
  by (simp add: assignZeroWeights_def)

lemma zeroWeightEntryCount_nonneg: "0 \<le> zeroWeightEntryCount ts"
  by (simp add: zeroWeightEntryCount_def)

lemma assignZeroWeights_some:
  assumes "builtFrom S c recs" and "0 < zeroWeightEntryCount (targets c)"
  shows "targets (assignZeroWeights c) =
           map (\<lambda>cet. if weight cet = 0
                       then cet\<lparr> weight := verySmallSpec (totalWeight c) (zeroWeightEntryCount (targets c)) \<rparr>
                       else cet) (targets c)"
    and "totalWeight (assignZeroWeights c) =
           totalWeight c + zeroWeightEntryCount (targets c) * verySmallSpec (totalWeight c) (zeroWeightEntryCount (targets c))"
proof -
  from assms(1) have tw: "totalWeight c = smallChanceMultiplier * sum_list (map (\<lambda>s. uint (Weight s)) recs)"
    by (simp add: builtFrom_def)
  have vs: "verySmallOf (totalWeight c) (zeroWeightEntryCount (targets c)) =
            verySmallSpec (totalWeight c) (zeroWeightEntryCount (targets c))"
    unfolding tw by (rule verySmallOf_spec [OF sum_uint_nonneg assms(2)])
  from assms(2) have nz: "zeroWeightEntryCount (targets c) \<noteq> 0" by simp
  show "targets (assignZeroWeights c) =
           map (\<lambda>cet. if weight cet = 0
                       then cet\<lparr> weight := verySmallSpec (totalWeight c) (zeroWeightEntryCount (targets c)) \<rparr>
                       else cet) (targets c)"
    by (simp add: assignZeroWeights_def nz assignLoop_eq vs)
  show "totalWeight (assignZeroWeights c) =
           totalWeight c + zeroWeightEntryCount (targets c) * verySmallSpec (totalWeight c) (zeroWeightEntryCount (targets c))"
    by (simp add: assignZeroWeights_def nz assignLoop_eq vs)
qed

text \<open>
  Claim C3. Take any list \<open>srvs\<close> of SRV records, any order \<open>ss\<close> that \<^verbatim>\<open>sort.Slice\<close> may leave
  it in, and any priority group built from it, at position \<open>i\<close>. Before the zero weights
  are replaced the group holds one target for each of its records \<open>recs\<close> (records of
  \<open>srvs\<close> with a target name and the group's priority), every weight is the record's
  weight times 1000 and the total is their sum. With \<open>Z\<close> the number of targets of
  weight zero (the records of weight zero): if \<open>Z > 0\<close>, population gives each of them the
  weight \<open>verySmallSpec total Z\<close>, that is \<open>ceil((total / 1000) / Z)\<close> or 1 if that is 0,
  leaves the other targets as they are and adds \<open>Z\<close> times that weight to the total; if
  \<open>Z = 0\<close> the group is unchanged.
\<close>

theorem populate_zero_weight_policy:
  assumes "priorities c0 = []" and "sortedByPriority srvs ss" and "i < length (transferred ss)"
  shows "\<exists>recs. builtFrom (set srvs) (transferred ss ! i) recs \<and>
     length (priorities (populateLoops c0 ss)) = length (transferred ss) \<and>
     priority (priorities (populateLoops c0 ss) ! i) = priority (transferred ss ! i) \<and>
     zeroWeightEntryCount (targets (transferred ss ! i)) = int (length (filter (\<lambda>s. Weight s = 0) recs)) \<and>
     (if 0 < zeroWeightEntryCount (targets (transferred ss ! i))
      then targets (priorities (populateLoops c0 ss) ! i) =
             map (\<lambda>cet. if weight cet = 0
                         then cet\<lparr> weight := verySmallSpec (totalWeight (transferred ss ! i))
                                                 (zeroWeightEntryCount (targets (transferred ss ! i))) \<rparr>
                         else cet)
                 (targets (transferred ss ! i)) \<and>
           totalWeight (priorities (populateLoops c0 ss) ! i) =
             totalWeight (transferred ss ! i) +
             zeroWeightEntryCount (targets (transferred ss ! i)) *
               verySmallSpec (totalWeight (transferred ss ! i))
                 (zeroWeightEntryCount (targets (transferred ss ! i)))
      else priorities (populateLoops c0 ss) ! i = transferred ss ! i)"
proof -
  let ?g1 = "transferred ss ! i"
  from assms(3) have "?g1 \<in> set (transferred ss)" by simp
  then obtain recs where b: "builtFrom (set srvs) ?g1 recs"
    using transferred_built sortedByPriority_set [OF assms(2)] by metis
  have g: "priorities (populateLoops c0 ss) ! i = assignZeroWeights ?g1"
    using assms(1,3) by (simp add: priorities_populateLoops)
  have len: "length (priorities (populateLoops c0 ss)) = length (transferred ss)"
    using assms(1) by (simp add: priorities_populateLoops)
  from b have z: "zeroWeightEntryCount (targets ?g1) = int (length (filter (\<lambda>s. Weight s = 0) recs))"
    by (simp add: builtFrom_def zeroWeightEntryCount_new)
  show ?thesis
  proof (cases "0 < zeroWeightEntryCount (targets ?g1)")
    case True
    from assignZeroWeights_some [OF b True] b len z True show ?thesis
      by (intro exI [of _ recs]) (simp add: g priority_assignZeroWeights)
  next
    case False
    with zeroWeightEntryCount_nonneg [of "targets ?g1"]
    have "zeroWeightEntryCount (targets ?g1) = 0" by simp
    from assignZeroWeights_none [OF this] b len z False show ?thesis
      by (intro exI [of _ recs]) (simp add: g)
  qed
qed

lemma ToLower_a: "ToLower ''a'' = ''a''" "ToLower ''b'' = ''b''"
  by (simp_all add: ToLower_def lowerChar_def)

lemma transferred_halfAndHalf:
  "transferred (sortSlice halfAndHalf) =
     [\<lparr> priority = 0, totalWeight = 1000,
        targets = [\<lparr> weight = 1000, port = 1, target = ''a'' \<rparr>,
                   \<lparr> weight = 0, port = 2, target = ''b'' \<rparr>] \<rparr>]"
  by (simp add: transferred_def halfAndHalf_def sortSlice_def current_def addTarget_def
      newCePriority_def newCeTarget_def smallChanceMultiplier_def ToLower_a)

theorem populate_zero_weight_policy_witness:
  "priorities (newCeSRV 0) = [] \<and> sortedByPriority halfAndHalf (sortSlice halfAndHalf) \<and>
   0 < length (transferred (sortSlice halfAndHalf)) \<and>
   0 < zeroWeightEntryCount (targets (transferred (sortSlice halfAndHalf) ! 0)) \<and>
   targets (priorities (populate (newCeSRV 0) halfAndHalf) ! 0) =
     [\<lparr> weight = 1000, port = 1, target = ''a'' \<rparr>, \<lparr> weight = 1, port = 2, target = ''b'' \<rparr>] \<and>
   totalWeight (priorities (populate (newCeSRV 0) halfAndHalf) ! 0) = 1001"
  using populate_zero_weight_policy [of "newCeSRV 0" halfAndHalf "sortSlice halfAndHalf" 0]
        sortedByPriority_sortSlice [of halfAndHalf]
  by (auto simp: newCeSRV_def transferred_halfAndHalf zeroWeightEntryCount_def verySmallSpec_def
      populate_def)

lemma targets_assignZeroWeights:
  "targets (assignZeroWeights c) =
     (if zeroWeightEntryCount (targets c) = 0 then targets c
      else map (\<lambda>cet. if weight cet = 0
                       then cet\<lparr> weight := verySmallOf (totalWeight c) (zeroWeightEntryCount (targets c)) \<rparr>
                       else cet) (targets c))"
  by (simp add: assignZeroWeights_def assignLoop_eq)

lemma totalWeight_assignZeroWeights:
  "totalWeight (assignZeroWeights c) =
     totalWeight c + zeroWeightEntryCount (targets c) *
       verySmallOf (totalWeight c) (zeroWeightEntryCount (targets c))"
  by (simp add: assignZeroWeights_def assignLoop_eq)

lemma length_targets_assignZeroWeights:
  "length (targets (assignZeroWeights c)) = length (targets c)"
  by (simp add: targets_assignZeroWeights)

lemma map_target_assignZeroWeights:
  "map target (targets (assignZeroWeights c)) = map target (targets c)"
  by (simp add: targets_assignZeroWeights o_def if_distrib cong: if_cong)

lemma map_port_assignZeroWeights:
  "map port (targets (assignZeroWeights c)) = map port (targets c)"
  by (simp add: targets_assignZeroWeights o_def if_distrib cong: if_cong)

lemma zeroWeightEntryCount_zero_iff:
  "zeroWeightEntryCount ts = 0 \<longleftrightarrow> (\<forall>cet \<in> set ts. weight cet \<noteq> 0)"
  by (simp add: zeroWeightEntryCount_def filter_empty_conv)

lemma weights_assignZeroWeights:
  assumes "\<forall>cet \<in> set (targets c). 0 \<le> weight cet" and "0 \<le> totalWeight c"
    and "cet \<in> set (targets (assignZeroWeights c))"
  shows "0 < weight cet"
proof (cases "zeroWeightEntryCount (targets c) = 0")
  case True
  with assms(3) have "cet \<in> set (targets c)" by (simp add: targets_assignZeroWeights)
  with assms(1) True show ?thesis
    by (fastforce simp: zeroWeightEntryCount_zero_iff)
next
  case False
  with zeroWeightEntryCount_nonneg [of "targets c"]
  have zp: "0 < zeroWeightEntryCount (targets c)" by simp
  from verySmallOf_pos [OF assms(2) zp]
  have vp: "0 < verySmallOf (totalWeight c) (zeroWeightEntryCount (targets c))" .
  from assms(3) False obtain cet0 where c0: "cet0 \<in> set (targets c)"
    and eq: "cet = (if weight cet0 = 0
                    then cet0\<lparr> weight := verySmallOf (totalWeight c) (zeroWeightEntryCount (targets c)) \<rparr>
                    else cet0)"
    by (auto simp: targets_assignZeroWeights)
  show ?thesis
  proof (cases "weight cet0 = 0")
    case True
    with eq vp show ?thesis by simp
  next
    case False
    with eq c0 assms(1) show ?thesis by fastforce
  qed
qed

lemma builtFrom_weights:
  assumes "builtFrom S c recs"
  shows "\<forall>cet \<in> set (targets c). 0 \<le> weight cet" and "0 \<le> totalWeight c"
    and "\<forall>cet \<in> set (targets c). target cet \<noteq> [] \<and> 0 \<le> port cet \<and> port cet < 65536"
    and "targets c \<noteq> []"
proof -
  from assms have t: "targets c = map newCeTarget recs"
    and tw: "totalWeight c = smallChanceMultiplier * sum_list (map (\<lambda>s. uint (Weight s)) recs)"
    and ne: "\<forall>s \<in> set recs. Target s \<noteq> []" and r: "recs \<noteq> []"
    by (auto simp: builtFrom_def)
  show "\<forall>cet \<in> set (targets c). 0 \<le> weight cet"
    by (simp add: t newCeTarget_def smallChanceMultiplier_def)
  show "0 \<le> totalWeight c"
    using sum_uint_nonneg [of recs] by (simp add: tw smallChanceMultiplier_def)
  have "uint w < 65536" for w :: "16 word"
    using uint_bounded [of w] by simp
  then show "\<forall>cet \<in> set (targets c). target cet \<noteq> [] \<and> 0 \<le> port cet \<and> port cet < 65536"
    using ne by (simp add: t newCeTarget_def ToLower_def)
  show "targets c \<noteq> []" using r by (simp add: t)
qed

lemma populated_group:
  assumes "priorities c0 = []" and "cep \<in> set (priorities (populateLoops c0 ss))"
  shows "targets cep \<noteq> []"
    and "\<forall>cet \<in> set (targets cep). 0 < weight cet \<and> target cet \<noteq> [] \<and> 0 \<le> port cet \<and> port cet < 65536"
proof -
  from assms obtain g1 where g1: "g1 \<in> set (transferred ss)" and cep: "cep = assignZeroWeights g1"
    by (auto simp: priorities_populateLoops)
  from transferred_built [OF g1] obtain recs where b: "builtFrom (set ss) g1 recs" ..
  note w = builtFrom_weights [OF b]
  from w(4) show "targets cep \<noteq> []"
    using length_targets_assignZeroWeights [of g1] by (auto simp: cep)
  have pos: "\<forall>cet \<in> set (targets cep). 0 < weight cet"
    using weights_assignZeroWeights [OF w(1,2)] by (simp add: cep)
  have "\<forall>n \<in> set (map target (targets g1)). n \<noteq> []" using w(3) by simp
  then have names: "\<forall>cet \<in> set (targets cep). target cet \<noteq> []"
    unfolding cep map_target_assignZeroWeights [of g1, symmetric] by simp
  have "\<forall>n \<in> set (map port (targets g1)). 0 \<le> n \<and> n < 65536" using w(3) by simp
  then have ports: "\<forall>cet \<in> set (targets cep). 0 \<le> port cet \<and> port cet < 65536"
    unfolding cep map_port_assignZeroWeights [of g1, symmetric] by simp
  from pos names ports
  show "\<forall>cet \<in> set (targets cep). 0 < weight cet \<and> target cet \<noteq> [] \<and> 0 \<le> port cet \<and> port cet < 65536"
    by blast
qed

text \<open>
  The total weight of every populated priority is positive, which is what \<^verbatim>\<open>rand.Intn\<close>,
  the default \<^verbatim>\<open>randIntn\<close>, asks of its argument.
\<close>

lemma sum_uint_pos:
  "recs \<noteq> [] \<Longrightarrow> \<forall>s \<in> set recs. Weight s \<noteq> 0 \<Longrightarrow> 0 < sum_list (map (\<lambda>s. uint (Weight s)) recs)"
proof (induction recs)
  case Nil
  then show ?case by simp
next
  case (Cons s recs)
  have "0 < uint (Weight s)" using Cons.prems(2) by (simp add: word_greater_zero_iff uint_0_iff order_less_le)
  moreover have "0 \<le> sum_list (map (\<lambda>s. uint (Weight s)) recs)" by (rule sum_uint_nonneg)
  ultimately show ?case by simp
qed

lemma populated_totalWeight_pos:
  assumes "priorities c0 = []" and "cep \<in> set (priorities (populateLoops c0 ss))"
  shows "0 < totalWeight cep"
proof -
  from assms obtain g1 where g1: "g1 \<in> set (transferred ss)" and cep: "cep = assignZeroWeights g1"
    by (auto simp: priorities_populateLoops)
  from transferred_built [OF g1] obtain recs where b: "builtFrom (set ss) g1 recs" ..
  note w = builtFrom_weights [OF b]
  from b have tw: "totalWeight g1 = smallChanceMultiplier * sum_list (map (\<lambda>s. uint (Weight s)) recs)"
    and t: "targets g1 = map newCeTarget recs" and ne: "recs \<noteq> []"
    by (simp_all add: builtFrom_def)
  show ?thesis
  proof (cases "zeroWeightEntryCount (targets g1) = 0")
    case True
    then have "\<forall>s \<in> set recs. Weight s \<noteq> 0"
      by (simp add: t zeroWeightEntryCount_new filter_empty_conv)
    from sum_uint_pos [OF ne this] True show ?thesis
      by (simp add: cep assignZeroWeights_none tw smallChanceMultiplier_def)
  next
    case False
    with zeroWeightEntryCount_nonneg [of "targets g1"]
    have zp: "0 < zeroWeightEntryCount (targets g1)" by simp
    from verySmallOf_pos [OF w(2) zp]
    have "0 < zeroWeightEntryCount (targets g1) * verySmallOf (totalWeight g1) (zeroWeightEntryCount (targets g1))"
      using zp by simp
    with w(2) show ?thesis
      by (simp add: cep totalWeight_assignZeroWeights)
  qed
qed

lemma length_groupLoop_targets:
  "length (concat (map targets (groupLoop ps cep xs))) =
   length (concat (map targets (ps @ current cep))) + length (filter (\<lambda>s. Target s \<noteq> []) xs)"
proof (induction xs arbitrary: ps cep)
  case Nil
  show ?case by simp
next
  case (Cons s xs)
  show ?case
  proof (cases cep)
    case None
    then show ?thesis
      by (simp add: Cons.IH current_def addTarget_def newCePriority_def)
  next
    case (Some c)
    then show ?thesis
      by (simp add: Cons.IH current_def addTarget_def newCePriority_def)
  qed
qed

lemma length_allTargets_populateLoops:
  assumes "priorities c0 = []"
  shows "length (allTargets (populateLoops c0 ss)) = length (filter (\<lambda>s. Target s \<noteq> []) ss)"
proof -
  have "length (concat (map targets (map assignZeroWeights gs))) = length (concat (map targets gs))" for gs
    by (induction gs) (simp_all add: length_targets_assignZeroWeights)
  then have "length (allTargets (populateLoops c0 ss)) = length (concat (map targets (transferred ss)))"
    using assms by (simp add: allTargets_def priorities_populateLoops)
  also have "\<dots> = length (filter (\<lambda>s. Target s \<noteq> []) ss)"
    by (simp add: transferred_def length_groupLoop_targets current_def)
  finally show ?thesis .
qed

lemma sorted_populateLoops:
  assumes "priorities c0 = []" and "sorted (map (\<lambda>s. uint (Priority s)) ss)"
  shows "sorted_wrt (<) (map priority (priorities (populateLoops c0 ss)))"
proof -
  have 1: "sorted_wrt (<) (map priority (transferred ss))"
    unfolding transferred_def
    by (rule groupLoop_sorted) (simp_all add: assms(2) current_def)
  have "map priority (map assignZeroWeights gs) = map priority gs" for gs
    by (induction gs) (simp_all add: priority_assignZeroWeights)
  then have "map priority (priorities (populateLoops c0 ss)) = map priority (transferred ss)"
    using assms(1) by (simp only: priorities_populateLoops)
  with 1 show ?thesis by (simp only:)
qed

lemma populateLoops_filter:
  "populateLoops c0 (filter (\<lambda>s. Target s \<noteq> []) ss) = populateLoops c0 ss"
  by (simp add: populateLoops_def groupLoop_filter)

text \<open>
  Claim C5. Take any list \<open>srvs\<close> of SRV records and any order \<open>ss\<close> that \<^verbatim>\<open>sort.Slice\<close> may
  leave it in. The view that population builds from it on a fresh entry has only targets
  of positive effective weight (and non-empty name), its priority groups are in strictly
  ascending order of priority (so each priority occurs once), and records with an empty
  target name contribute nothing: the view is the one built from the list without them,
  and it holds as many targets as there are records with a target name.
\<close>

theorem populate_view_invariants:
  assumes "priorities c0 = []" and "sortedByPriority srvs ss"
  shows "(\<forall>cep \<in> set (priorities (populateLoops c0 ss)). \<forall>cet \<in> set (targets cep).
            0 < weight cet \<and> target cet \<noteq> []) \<and>
         sorted_wrt (<) (map priority (priorities (populateLoops c0 ss))) \<and>
         populateLoops c0 (filter (\<lambda>s. Target s \<noteq> []) ss) = populateLoops c0 ss \<and>
         length (allTargets (populateLoops c0 ss)) = length (filter (\<lambda>s. Target s \<noteq> []) srvs)"
proof -
  from assms(2) have so: "sorted (map (\<lambda>s. uint (Priority s)) ss)"
    by (simp add: sortedByPriority_def)
  have "length (allTargets (populateLoops c0 ss)) = length (filter (\<lambda>s. Target s \<noteq> []) srvs)"
    using length_allTargets_populateLoops [OF assms(1), of ss]
          sortedByPriority_filter [OF assms(2), of "\<lambda>s. Target s \<noteq> []"]
    by simp
  with populated_group(2) [OF assms(1), of _ ss] sorted_populateLoops [OF assms(1) so]
       populateLoops_filter [of c0 ss]
  show ?thesis by blast
qed

lemma ToLower_examples:
  "ToLower ''U1.example.com'' = ''u1.example.com''"
  "ToLower ''u7.example.com'' = ''u7.example.com''"
  by code_simp+

lemma populate_mixedRecords:
  "priorities (populate (newCeSRV 0) mixedRecords) =
     [\<lparr> priority = 2, totalWeight = 1,
        targets = [\<lparr> weight = 1, port = 1444, target = ''u7.example.com'' \<rparr>] \<rparr>,
      \<lparr> priority = 13, totalWeight = 10000,
        targets = [\<lparr> weight = 10000, port = 1443, target = ''u1.example.com'' \<rparr>] \<rparr>]"
  by (simp add: populate_def populateLoops_def newCeSRV_def mixedRecords_def sortSlice_def
      current_def addTarget_def newCePriority_def newCeTarget_def smallChanceMultiplier_def
      ToLower_examples assignZeroWeights_def zeroWeightEntryCount_def verySmallOf_def
      signed_divide_int_def)

theorem populate_view_invariants_witness:
  "priorities (newCeSRV 0) = [] \<and> sortedByPriority mixedRecords (sortSlice mixedRecords) \<and>
   map priority (priorities (populate (newCeSRV 0) mixedRecords)) = [2, 13] \<and>
   sorted_wrt (<) (map priority (priorities (populate (newCeSRV 0) mixedRecords))) \<and>
   map (\<lambda>cep. map weight (targets cep)) (priorities (populate (newCeSRV 0) mixedRecords)) = [[1], [10000]] \<and>
   length (allTargets (populate (newCeSRV 0) mixedRecords)) = 2 \<and>
   length (filter (\<lambda>s. Target s \<noteq> []) mixedRecords) = 2"
proof -
  have f: "priorities (newCeSRV 0) = []" by (simp add: newCeSRV_def)
  note so = sortedByPriority_sortSlice [of mixedRecords]
  from populate_view_invariants [OF f so] f so show ?thesis
    by (simp add: populate_def [symmetric] populate_mixedRecords) (simp add: mixedRecords_def)
qed

subsection \<open>The expiry of a looked up view\<close>

lemma expires_populate: "ceSRV.expires (populate c srvs) = ceSRV.expires c"
  by (simp add: populate_def populateLoops_def)

lemma srvStore_createHealth: "srvStore (createHealth t now k) = srvStore t"
  by (simp add: createHealth_def)

lemma srvStore_populateHealthStore: "srvStore (populateHealthStore t now keys) = srvStore t"
  by (induction keys arbitrary: t) (simp_all add: srvStore_createHealth split: option.splits)

lemma lookupSRV_miss_view:
  assumes "srvStore t (ToLower (''_'' @ service @ ''._'' @ proto @ ''.'' @ domain)) = None"
  shows "portsInRange (fst (lookupSRV t LookupSRV now service proto domain))"
    and "uniqueTargets (fst (lookupSRV t LookupSRV now service proto domain)) =
           int (length (uniqueTargetKeys (fst (lookupSRV t LookupSRV now service proto domain))))"
proof -
  let ?key = "ToLower (''_'' @ service @ ''._'' @ proto @ ''.'' @ domain)"
  define c1 where "c1 = (if length (fst (LookupSRV ?key)) > 0
      then populate ((newCeSRV (Add now (NotFoundSRVTTL t)))\<lparr> ceSRV.expires := Add now (FoundSRVTTL t) \<rparr>)
             (fst (LookupSRV ?key))
      else newCeSRV (Add now (NotFoundSRVTTL t)))"
  have v: "fst (lookupSRV t LookupSRV now service proto domain) =
      c1\<lparr> uniqueTargetCount := int (length (uniqueTargetKeys c1)) \<rparr>"
    using assms by (simp add: lookupSRV_def Let_def c1_def)
  have "\<forall>cep \<in> set (priorities c1). \<forall>cet \<in> set (targets cep). 0 \<le> port cet \<and> port cet < 65536"
  proof (cases "length (fst (LookupSRV ?key)) > 0")
    case True
    have "priorities ((newCeSRV (Add now (NotFoundSRVTTL t)))\<lparr> ceSRV.expires := Add now (FoundSRVTTL t) \<rparr>) = []"
      by (simp add: newCeSRV_def)
    from populated_group(2) [OF this] True show ?thesis
      by (simp add: c1_def populate_def)
  next
    case False
    then show ?thesis by (simp add: c1_def newCeSRV_def)
  qed
  then show "portsInRange (fst (lookupSRV t LookupSRV now service proto domain))"
    by (auto simp: v portsInRange_def allTargets_def list_all_iff)
  show "uniqueTargets (fst (lookupSRV t LookupSRV now service proto domain)) =
           int (length (uniqueTargetKeys (fst (lookupSRV t LookupSRV now service proto domain))))"
    by (simp add: v uniqueTargets_def uniqueTargetKeys_def allTargets_def)
qed

text \<open>
  So every view that \<^verbatim>\<open>lookupSRV\<close> returns or keeps in the cache has its ports in range, from
  the empty cache on.
\<close>

lemma lookupSRV_keeps_portsInRange:
  assumes "\<forall>k v. srvStore t k = Some v \<longrightarrow> portsInRange v"
  shows "portsInRange (fst (lookupSRV t LookupSRV now service proto domain))"
    and "\<forall>k v. srvStore (snd (lookupSRV t LookupSRV now service proto domain)) k = Some v \<longrightarrow> portsInRange v"
proof -
  let ?key = "ToLower (''_'' @ service @ ''._'' @ proto @ ''.'' @ domain)"
  let ?r = "lookupSRV t LookupSRV now service proto domain"
  show 1: "portsInRange (fst ?r)"
  proof (cases "srvStore t ?key")
    case None
    then show ?thesis by (rule lookupSRV_miss_view(1))
  next
    case (Some cesrv)
    with assms have "portsInRange cesrv" by blast
    then show ?thesis
      using Some by (simp add: lookupSRV_def Let_def portsInRange_def allTargets_def)
  qed
  have "srvStore (snd ?r) = (srvStore t)(?key \<mapsto> fst ?r)"
    by (cases "srvStore t ?key")
       (simp_all add: lookupSRV_def Let_def srvStore_populateHealthStore)
  with 1 assms show "\<forall>k v. srvStore (snd ?r) k = Some v \<longrightarrow> portsInRange v"
    by simp
qed

text \<open>
  Claim C6, as the code has it. On a lookup that misses the cache the view is installed
  under the key, and its expiry is \<open>now + FoundSRVTTL\<close> when the resolver returned at least
  one record and \<open>now + NotFoundSRVTTL\<close> when it returned none. The choice is made on the
  list as the resolver returned it, before population drops the records without a target
  name, and the resolver's error is not looked at.
\<close>

theorem lookupSRV_miss_expiry:
  assumes "srvStore t (ToLower (''_'' @ service @ ''._'' @ proto @ ''.'' @ domain)) = None"
  shows "srvStore (snd (lookupSRV t LookupSRV now service proto domain))
           (ToLower (''_'' @ service @ ''._'' @ proto @ ''.'' @ domain)) =
         Some (fst (lookupSRV t LookupSRV now service proto domain)) \<and>
         ceSRV.expires (fst (lookupSRV t LookupSRV now service proto domain)) =
           (if fst (LookupSRV (ToLower (''_'' @ service @ ''._'' @ proto @ ''.'' @ domain))) \<noteq> []
            then Add now (FoundSRVTTL t) else Add now (NotFoundSRVTTL t))"
  using assms
  by (simp add: lookupSRV_def Let_def srvStore_populateHealthStore expires_populate newCeSRV_def)

theorem lookupSRV_miss_expiry_witness:
  "srvStore newCslb (ToLower (''_'' @ ''http'' @ ''._'' @ ''tcp'' @ ''.'' @ ''empty.example.org'')) = None \<and>
   fst (onlyEmptyTarget (ToLower (''_'' @ ''http'' @ ''._'' @ ''tcp'' @ ''.'' @ ''empty.example.org''))) \<noteq> [] \<and>
   ceSRV.expires (fst (lookupSRV newCslb onlyEmptyTarget 1000 ''http'' ''tcp'' ''empty.example.org''))
     = 1000 + 5 * Minute \<and>
   ceSRV.expires (fst (lookupSRV newCslb (\<lambda>key. ([], Some ''no such host'')) 1000 ''http'' ''tcp'' ''empty.example.org''))
     = 1000 + 20 * Minute"
  using lookupSRV_miss_expiry [of newCslb "''http''" "''tcp''" "''empty.example.org''" onlyEmptyTarget 1000]
        lookupSRV_miss_expiry [of newCslb "''http''" "''tcp''" "''empty.example.org''"
                                  "\<lambda>key. ([], Some ''no such host'')" 1000]
  by (simp add: newCslb_fields onlyEmptyTarget_def Add_def)

text \<open>
  Claim C6 as stated fails: when every record the resolver returns has an empty target
  name, no target survives population and yet the view expires after \<open>FoundSRVTTL\<close>.
\<close>

theorem lookupSRV_found_ttl_without_targets:
  "allTargets (fst (lookupSRV newCslb onlyEmptyTarget 1000 ''http'' ''tcp'' ''empty.example.org'')) = [] \<and>
   ceSRV.expires (fst (lookupSRV newCslb onlyEmptyTarget 1000 ''http'' ''tcp'' ''empty.example.org''))
     = 1000 + FoundSRVTTL newCslb \<and>
   ceSRV.expires (fst (lookupSRV newCslb onlyEmptyTarget 1000 ''http'' ''tcp'' ''empty.example.org''))
     \<noteq> 1000 + NotFoundSRVTTL newCslb"
  by (simp add: lookupSRV_def Let_def newCslb_fields onlyEmptyTarget_def expires_populate newCeSRV_def
      Add_def Minute_def Second_def populate_def populateLoops_def sortSlice_def current_def
      allTargets_def)

subsection \<open>The health prober\<close>

lemma Contains_iff: "Contains b sub \<longleftrightarrow> (\<exists>p s. b = p @ sub @ s)"
proof (induction b)
  case Nil
  show ?case by auto
next
  case (Cons x xs)
  show ?case
  proof
    assume "Contains (x # xs) sub"
    then consider "prefix sub (x # xs)" | "Contains xs sub" by auto
    then show "\<exists>p s. x # xs = p @ sub @ s"
    proof cases
      case 1
      then obtain s where "x # xs = sub @ s" by (auto simp: prefix_def)
      then have "x # xs = [] @ sub @ s" by simp
      then show ?thesis by blast
    next
      case 2
      with Cons.IH obtain p s where "xs = p @ sub @ s" by blast
      then have "x # xs = (x # p) @ sub @ s" by simp
      then show ?thesis by blast
    qed
  next
    assume "\<exists>p s. x # xs = p @ sub @ s"
    then obtain p s where ps: "x # xs = p @ sub @ s" by blast
    show "Contains (x # xs) sub"
    proof (cases p)
      case Nil
      with ps have "prefix sub (x # xs)" by (simp add: prefix_def)
      then show ?thesis by simp
    next
      case (Cons y p')
      with ps have "xs = p' @ sub @ s" by simp
      with Cons.IH have "Contains xs sub" by blast
      then show ?thesis by simp
    qed
  qed
qed

text \<open>
  Claim C8, as the code has it. In a pass of the prober's loop that is not past the expiry:
  if the GET gives an error and no response, the record is marked unhealthy, the time and
  the error text are recorded and the worker exits; if a response arrives and its body is
  read, \<open>unHealthy\<close> becomes true exactly when the status is not 200 or the body does not
  contain the OK phrase, the time and the status are recorded and the loop continues; if a
  response arrives and reading its body fails, the record is left as it is and the loop
  continues.
\<close>

theorem healthCheckPass_outcomes:
  assumes "\<not> Before expiry now"
  shows "healthCheckPass t expiry now (GetError e) ceh =
           (ceh\<lparr> unHealthy := True, lastHealthCheck := now, lastHealthCheckStatus := e \<rparr>, Exits) \<and>
         healthCheckPass t expiry now (Response StatusCode Status (Inr bytes)) ceh =
           (ceh\<lparr> unHealthy := (StatusCode \<noteq> 200 \<or> \<not> Contains bytes (HealthCheckContentOk t)),
                  lastHealthCheck := now, lastHealthCheckStatus := Status \<rparr>, Continues) \<and>
         healthCheckPass t expiry now (Response StatusCode Status (Inl readError)) ceh =
           (ceh, Continues)"
  using assms by (simp add: healthCheckPass_def Let_def)

theorem healthCheckPass_outcomes_witness:
  "\<not> Before 5000 1000 \<and>
   healthCheckPass newCslb 5000 1000 (GetError ''connection refused'') (newCeHealth 5000) =
     ((newCeHealth 5000)\<lparr> unHealthy := True, lastHealthCheck := 1000,
                            lastHealthCheckStatus := ''connection refused'' \<rparr>, Exits) \<and>
   healthCheckPass newCslb 5000 1000 (Response 200 ''200 OK'' (Inr ''all OK here'')) (newCeHealth 5000) =
     ((newCeHealth 5000)\<lparr> unHealthy := False, lastHealthCheck := 1000,
                            lastHealthCheckStatus := ''200 OK'' \<rparr>, Continues) \<and>
   healthCheckPass newCslb 5000 1000 (Response 200 ''200 OK'' (Inr ''down'')) (newCeHealth 5000) =
     ((newCeHealth 5000)\<lparr> unHealthy := True, lastHealthCheck := 1000,
                            lastHealthCheckStatus := ''200 OK'' \<rparr>, Continues)"
  using healthCheckPass_outcomes [of 5000 1000 newCslb "''connection refused''" "newCeHealth 5000"
          200 "''200 OK''" "''all OK here''"]
        healthCheckPass_outcomes [of 5000 1000 newCslb "''connection refused''" "newCeHealth 5000"
          200 "''200 OK''" "''down''"]
  by (simp add: Before_def newCslb_fields)

text \<open>
  Claim C8 as stated fails: a response with status 500 whose body cannot be read leaves
  the record healthy and records neither status nor time.
\<close>

theorem healthCheckPass_body_error_counterexample:
  "healthCheckPass newCslb 5000 1000
     (Response 500 ''500 Internal Server Error'' (Inl ''unexpected EOF'')) (newCeHealth 5000) =
     (newCeHealth 5000, Continues) \<and>
   unHealthy (newCeHealth 5000) = False \<and>
   lastHealthCheckStatus (newCeHealth 5000) = [] \<and>
   lastHealthCheck (newCeHealth 5000) = zeroTime"
  by (simp add: healthCheckPass_def Before_def newCeHealth_def)

subsection \<open>The selector\<close>

text \<open>
  What the two searches of \<^verbatim>\<open>bestTarget\<close> deliver. If any target of the view is eligible,
  an eligible target is returned. If none is and no record holds the zero time as its
  \<open>nextDialAttempt\<close>, a target with the least \<open>nextDialAttempt\<close> is returned.
\<close>

lemma bestTarget_eligible:
  assumes "cep \<in> set (priorities cesrv)" and "cet \<in> set (targets cep)"
    and "eligible (healthStore t) now cet"
  shows "\<exists>cep' \<in> set (priorities cesrv). \<exists>cet' \<in> set (targets cep').
           bestTarget t rnd now cesrv = Some (synthesize cep' cet') \<and>
           eligible (healthStore t) now cet'"
proof (cases "scanPriorities (healthStore t) now rnd 0 (priorities cesrv) False emptySRV")
  case (Return s)
  from assms(1) have "priorities cesrv \<noteq> []" by auto
  with Return have "bestTarget t rnd now cesrv = Some s" by (simp add: bestTarget_def)
  with scanPriorities_Return [OF Return] show ?thesis by auto
next
  case (Next s)
  from scanPriorities_Next [OF Next] assms show ?thesis by blast
qed

lemma leastWorstTargets_least:
  assumes "leastOf cache now seen st"
    and "\<forall>cet \<in> set ts. nextAttemptOf cache now cet \<noteq> 0"
  shows "leastOf cache now (seen @ map (Pair cep) ts) (leastWorstTargets cache now cep ts st)"
  using assms
proof (induction ts arbitrary: seen st)
  case Nil
  then show ?case by simp
next
  case (Cons cet ts)
  obtain srv slw where st: "st = (srv, slw)" by (cases st)
  let ?na = "nextAttemptOf cache now cet"
  have nz: "?na \<noteq> 0" using Cons.prems(2) by simp
  have rest: "\<forall>cet \<in> set ts. nextAttemptOf cache now cet \<noteq> 0" using Cons.prems(2) by simp
  show ?case
  proof (cases "IsZero slw \<or> Before ?na slw")
    case True
    have step: "leastWorstTargets cache now cep (cet # ts) st =
        leastWorstTargets cache now cep ts (synthesize cep cet, ?na)"
      using True by (simp add: st nextAttemptOf_def Let_def)
    have "leastOf cache now (seen @ [(cep, cet)]) (synthesize cep cet, ?na)"
    proof (cases "seen = []")
      case True
      then show ?thesis using nz by (simp add: leastOf_def)
    next
      case False
      with Cons.prems(1) have "slw \<noteq> 0" and le: "\<forall>(cep, cet) \<in> set seen. slw \<le> nextAttemptOf cache now cet"
        by (simp_all add: leastOf_def st)
      with True have "?na < slw" by (simp add: IsZero_def Before_def)
      with le nz show ?thesis by (fastforce simp: leastOf_def)
    qed
    from Cons.IH [OF this rest] show ?thesis by (simp add: step)
  next
    case False
    have step: "leastWorstTargets cache now cep (cet # ts) st =
        leastWorstTargets cache now cep ts st"
      using False by (simp add: st nextAttemptOf_def Let_def)
    from False have sn: "slw \<noteq> 0" and ge: "slw \<le> ?na" by (simp_all add: IsZero_def Before_def)
    from sn Cons.prems(1) have "seen \<noteq> []" by (auto simp: leastOf_def st)
    with Cons.prems(1) ge have "leastOf cache now (seen @ [(cep, cet)]) st"
      by (auto simp: leastOf_def st)
    from Cons.IH [OF this rest] show ?thesis by (simp add: step)
  qed
qed

lemma leastWorstPriorities_least:
  assumes "leastOf cache now seen st"
    and "\<forall>(cep, cet) \<in> set (pairs ps). nextAttemptOf cache now cet \<noteq> 0"
  shows "leastOf cache now (seen @ pairs ps) (leastWorstPriorities cache now ps st)"
  using assms
proof (induction ps arbitrary: seen st)
  case Nil
  then show ?case by (simp add: pairs_def)
next
  case (Cons cep ps)
  have 1: "\<forall>cet \<in> set (targets cep). nextAttemptOf cache now cet \<noteq> 0"
    using Cons.prems(2) by (auto simp: pairs_def)
  have 2: "\<forall>(cep, cet) \<in> set (pairs ps). nextAttemptOf cache now cet \<noteq> 0"
    using Cons.prems(2) by (auto simp: pairs_def)
  from Cons.IH [OF leastWorstTargets_least [OF Cons.prems(1) 1, of cep] 2]
  show ?case by (simp add: pairs_def)
qed

lemma bestTarget_least_worst:
  assumes none: "\<forall>(cep, cet) \<in> set (pairs (priorities cesrv)). \<not> eligible (healthStore t) now cet"
    and nz: "\<forall>(cep, cet) \<in> set (pairs (priorities cesrv)). nextAttemptOf (healthStore t) now cet \<noteq> 0"
    and some: "pairs (priorities cesrv) \<noteq> []"
  shows "\<exists>(cep, cet) \<in> set (pairs (priorities cesrv)).
           bestTarget t rnd now cesrv = Some (synthesize cep cet) \<and>
           (\<forall>(cep', cet') \<in> set (pairs (priorities cesrv)).
              nextAttemptOf (healthStore t) now cet \<le> nextAttemptOf (healthStore t) now cet')"
proof -
  from some have pne: "priorities cesrv \<noteq> []" by (auto simp: pairs_def)
  have "scanPriorities (healthStore t) now rnd 0 (priorities cesrv) False emptySRV = Next emptySRV"
  proof (cases "scanPriorities (healthStore t) now rnd 0 (priorities cesrv) False emptySRV")
    case (Return s)
    from scanPriorities_Return [OF Return] none show ?thesis by (fastforce simp: pairs_def)
  next
    case (Next s)
    with scanPriorities_Next [OF Next] show ?thesis by simp
  qed
  then have bt: "bestTarget t rnd now cesrv =
      Some (fst (leastWorstPriorities (healthStore t) now (priorities cesrv) (emptySRV, zeroTime)))"
    using pne by (simp add: bestTarget_def)
  have "leastOf (healthStore t) now [] (emptySRV, zeroTime)"
    by (simp add: leastOf_def zeroTime_def)
  from leastWorstPriorities_least [OF this nz]
  have "leastOf (healthStore t) now (pairs (priorities cesrv))
          (leastWorstPriorities (healthStore t) now (priorities cesrv) (emptySRV, zeroTime))"
    by simp
  with some bt show ?thesis
    by (fastforce simp: leastOf_def)
qed

lemma keys_cab:
  "makeHealthStoreKey ''c'' 1 = ''c:1''"
  "makeHealthStoreKey ''a'' 2 = ''a:2''"
  "makeHealthStoreKey ''b'' 3 = ''b:3''"
  by (simp_all add: makeHealthStoreKey_def FormatUint.simps digitChar_def)

lemma bestTarget_allVetoed:
  "bestTarget allVetoed (\<lambda>k n. 0) 100 threeTargets =
     Some \<lparr> Target = ''b'', Port = 3, Priority = 10, Weight = 10 \<rparr>"
  by (simp add: bestTarget_def threeTargets_def allVetoed_def eligible_def healthStoreKey_def
      keys_cab isGood_def After_def Before_def IsZero_def zeroTime_def newCeHealth_def
      synthesize_def emptySRV_def)

text \<open>
  Claim C9. For every view, health cache, clock and random source, \<^verbatim>\<open>bestTarget\<close> returns
  \<^verbatim>\<open>nil\<close> exactly when the view has no priority group. For a view with a priority group it
  returns one descriptor, and when the view holds any target that descriptor is the one
  synthesized from a target of the view.
\<close>

theorem bestTarget_nil_iff_no_priorities:
  "(bestTarget t rnd now cesrv = None \<longleftrightarrow> priorities cesrv = []) \<and>
   (priorities cesrv \<noteq> [] \<longrightarrow>
      (\<exists>srv. bestTarget t rnd now cesrv = Some srv \<and>
         (allTargets cesrv \<noteq> [] \<longrightarrow>
            (\<exists>cep \<in> set (priorities cesrv). \<exists>cet \<in> set (targets cep). srv = synthesize cep cet))))"
proof -
  have 1: "bestTarget t rnd now cesrv = None \<longleftrightarrow> priorities cesrv = []"
    by (rule bestTarget_None_iff)
  have 2: "\<exists>srv. bestTarget t rnd now cesrv = Some srv \<and>
         (allTargets cesrv \<noteq> [] \<longrightarrow>
            (\<exists>cep \<in> set (priorities cesrv). \<exists>cet \<in> set (targets cep). srv = synthesize cep cet))"
    if "priorities cesrv \<noteq> []"
  proof -
    from that 1 obtain srv where s: "bestTarget t rnd now cesrv = Some srv" by auto
    with bestTarget_of_targets [OF s] show ?thesis by blast
  qed
  from 1 2 show ?thesis by blast
qed

theorem bestTarget_nil_iff_no_priorities_witness:
  "priorities (newCeSRV 0) = [] \<and>
   bestTarget newCslb (\<lambda>k n. 0) 100 (newCeSRV 0) = None \<and>
   priorities threeTargets \<noteq> [] \<and> allTargets threeTargets \<noteq> [] \<and>
   bestTarget allVetoed (\<lambda>k n. 0) 100 threeTargets =
     Some (synthesize (hd (priorities threeTargets)) (targets (hd (priorities threeTargets)) ! 2))"
  using bestTarget_nil_iff_no_priorities [of newCslb "\<lambda>k n. 0" 100 "newCeSRV 0"]
        bestTarget_nil_iff_no_priorities [of allVetoed "\<lambda>k n. 0" 100 threeTargets]
  by (simp add: bestTarget_allVetoed) (simp add: newCeSRV_def threeTargets_def allTargets_def synthesize_def)

text \<open>
  Claim C1, at an input where the code departs from it. At time 100 no target of
  \<open>threeTargets\<close> is eligible under \<open>allVetoed\<close>, and their \<open>nextDialAttempt\<close> are 101, 0
  and 160. The second search starts with \<open>smallestLeastWorst\<close> at the zero time, which it
  reads as "nothing chosen yet"; the zero \<open>nextDialAttempt\<close> of \<^verbatim>\<open>a:2\<close> puts it back to
  that, so the next target, \<^verbatim>\<open>b:3\<close>, is taken whatever its time. \<^verbatim>\<open>bestTarget\<close> returns
  \<^verbatim>\<open>b:3\<close>, whose \<open>nextDialAttempt\<close> is the largest of the three.
\<close>

theorem bestTarget_least_worst_not_smallest:
  "bestTarget allVetoed (\<lambda>k n. 0) 100 threeTargets =
     Some \<lparr> Target = ''b'', Port = 3, Priority = 10, Weight = 10 \<rparr> \<and>
   list_all (\<lambda>cet. \<not> eligible (healthStore allVetoed) 100 cet) (allTargets threeTargets) \<and>
   map (\<lambda>cet. map_option nextDialAttempt (healthStore allVetoed (healthStoreKey cet)))
       (allTargets threeTargets) = [Some 101, Some 0, Some 160]"
  by (simp add: bestTarget_allVetoed)
     (simp add: threeTargets_def allVetoed_def eligible_def healthStoreKey_def keys_cab isGood_def
        After_def newCeHealth_def allTargets_def zeroTime_def)

text \<open>
  For the weights up to 65, whose effective weight fits in 16 bits, the descriptor reports
  the weight of the record.
\<close>

lemma synthesize_small_weight:
  assumes "uint (Weight srv) \<le> 65"
  shows "Weight (synthesize cep (newCeTarget srv)) = Weight srv"
proof -
  let ?w = "uint (Weight srv)"
  have "uint (Weight srv) * uint (1000 :: 16 word) < 2 ^ LENGTH(16)" using assms by simp
  then have "uint (Weight srv * 1000) = uint (Weight srv) * uint (1000 :: 16 word)"
    by (simp only: uint_mult_lem)
  then have 1: "uint (Weight srv * 1000) = ?w * 1000" by simp
  have "uint (Weight srv * 1000 div 1000) = ?w * 1000 div 1000"
    by (simp add: uint_div 1)
  then have "uint (Weight srv * 1000 div 1000) = ?w" by simp
  then have "Weight srv * 1000 div 1000 = Weight srv"
    by (simp add: word_uint_eq_iff)
  then show ?thesis
    by (simp add: synthesize_def newCeTarget_def smallChanceMultiplier_def)
qed

lemma ToLower_t14: "ToLower ''t14.example.net'' = ''t14.example.net''"
  by code_simp

lemma populate_heavyRecord:
  "priorities (populate (newCeSRV 0) [heavyRecord]) =
     [\<lparr> priority = 12, totalWeight = 70000,
        targets = [\<lparr> weight = 70000, port = 3, target = ''t14.example.net'' \<rparr>] \<rparr>]"
  by (simp add: populate_def populateLoops_def newCeSRV_def heavyRecord_def sortSlice_def
      current_def addTarget_def newCePriority_def newCeTarget_def smallChanceMultiplier_def
      ToLower_t14 assignZeroWeights_def zeroWeightEntryCount_def)

text \<open>
  Claim C7, at an input where the code departs from it. The record of weight 70 is stored
  with the effective weight 70000, so the weight to report is 70. \<^verbatim>\<open>bestTarget\<close> computes
  \<^verbatim>\<open>uint16(cet.weight) / smallChanceMultiplier\<close>: the conversion keeps 70000 mod 65536 = 4464,
  and the descriptor reports 4.
\<close>

theorem bestTarget_reports_truncated_weight:
  "map (\<lambda>cep. map weight (targets cep)) (priorities (populate (newCeSRV 0) [heavyRecord])) = [[70000]] \<and>
   bestTarget newCslb (\<lambda>k n. 0) 1000 (populate (newCeSRV 0) [heavyRecord]) =
     Some \<lparr> Target = ''t14.example.net'', Port = 3, Priority = 12, Weight = 4 \<rparr>"
  by (simp add: bestTarget_def populate_heavyRecord eligible_def newCslb_fields synthesize_def)

subsection \<open>The attempt loop\<close>

lemma addressOf_synthesize:
  assumes "0 \<le> port cet" and "port cet < 65536"
  shows "addressOf (synthesize cep cet) = healthStoreKey cet"
proof -
  have "uint (word_of_int (port cet) :: 16 word) = port cet"
    using assms by (simp add: uint_word_of_int take_bit_eq_mod)
  moreover have "port cet mod 2 ^ 64 = port cet"
    using assms by simp
  ultimately show ?thesis
    using assms(1)
    by (simp add: addressOf_def synthesize_def healthStoreKey_def makeHealthStoreKey_def FormatInt_def)
qed

lemma bestTarget_key:
  assumes "portsInRange cesrv" and "allTargets cesrv \<noteq> []"
    and "bestTarget t rnd now cesrv = Some srv"
  shows "addressOf srv \<in> set (uniqueTargetKeys cesrv)"
proof -
  from bestTarget_of_targets [OF assms(3,2)] obtain cep cet
    where cep: "cep \<in> set (priorities cesrv)" and cet: "cet \<in> set (targets cep)"
      and srv: "srv = synthesize cep cet"
    by blast
  from cep cet have mem: "cet \<in> set (allTargets cesrv)" by (auto simp: allTargets_def)
  with assms(1) have "0 \<le> port cet" "port cet < 65536"
    by (simp_all add: portsInRange_def list_all_iff)
  then have "addressOf srv = healthStoreKey cet"
    unfolding srv by (rule addressOf_synthesize)
  with mem show ?thesis by (simp add: uniqueTargetKeys_def)
qed

lemma dialIterate_inv:
  "portsInRange cesrv \<Longrightarrow> allTargets cesrv \<noteq> [] \<Longrightarrow>
   distinct dupes \<Longrightarrow> set dupes \<subseteq> set (uniqueTargetKeys cesrv) \<Longrightarrow> dialled = dupes \<Longrightarrow>
   i = length dupes \<Longrightarrow> lastError = lastErrorOf env network dupes \<Longrightarrow>
   GoodDials ls + FailedDials ls = int (length dupes) \<Longrightarrow>
   iterated cesrv env network address ls
     (dialIterate env cesrv network address i t dupes lastError ls dialled)"
proof (induction env cesrv network address i t dupes lastError ls dialled rule: dialIterate.induct)
  case (1 env cesrv network address i t dupes lastError ls dialled)
  define ls1 where "ls1 = ls\<lparr> BestTarget := BestTarget ls + 1 \<rparr>"
  define t1 where "t1 = t\<lparr> healthStore := othersBeforeSelect (env i) (healthStore t) \<rparr>"
  from "1.prems"(2) have "priorities cesrv \<noteq> []" by (auto simp: allTargets_def)
  then obtain srv where bt: "bestTarget t1 (randIntn (env i)) (selectNow (env i)) cesrv = Some srv"
    using bestTarget_None_iff [of t1 "randIntn (env i)" "selectNow (env i)" cesrv] by auto
  define newAddress where "newAddress = addressOf srv"
  from bestTarget_key [OF "1.prems"(1,2) bt]
  have key: "newAddress \<in> set (uniqueTargetKeys cesrv)" by (simp add: newAddress_def)
  show ?case
  proof (cases "newAddress \<in> set dupes")
    case True
    then have out: "dialIterate env cesrv network address i t dupes lastError ls dialled =
        (Inr \<lparr> conn = None, err = Some (allFailed address newAddress dupes lastError) \<rparr>,
         ls1\<lparr> DupesStopped := DupesStopped ls1 + 1 \<rparr>, t1, dialled)"
      by (subst dialIterate.simps)
         (simp add: Let_def bt [unfolded t1_def] newAddress_def ls1_def t1_def)
    show ?thesis
      unfolding out iterated_def using "1.prems" True
      by (auto simp: ls1_def)
  next
    case False
    define dupes1 where "dupes1 = dupes @ [newAddress]"
    define e where "e = systemDialContext (env i) network newAddress"
    define t2 where "t2 = t1\<lparr> healthStore := othersBeforeRecord (env i) (healthStore t1) \<rparr>"
    define t3 where "t3 = setDialResult t2 (dialNow (env i)) (Target srv) (uint (Port srv)) e"
    have d1: "distinct dupes1" "set dupes1 \<subseteq> set (uniqueTargetKeys cesrv)"
      using "1.prems"(3,4) False key by (simp_all add: dupes1_def)
    show ?thesis
    proof (cases "e = None")
      case True
      with False have out: "dialIterate env cesrv network address i t dupes lastError ls dialled =
          (Inr \<lparr> conn = Some (network, newAddress), err = None \<rparr>,
           ls1\<lparr> GoodDials := GoodDials ls1 + 1 \<rparr>, t3, dialled @ [newAddress])"
        by (subst dialIterate.simps)
           (simp add: Let_def bt [unfolded t1_def] newAddress_def ls1_def t1_def t2_def t3_def e_def)
      show ?thesis
        unfolding out iterated_def using "1.prems" d1
        by (auto simp: ls1_def dupes1_def)
    next
      case nz: False
      with False have out: "dialIterate env cesrv network address i t dupes lastError ls dialled =
          dialIterate env cesrv network address (i + 1) t3 dupes1 e
            (ls1\<lparr> FailedDials := FailedDials ls1 + 1 \<rparr>) (dialled @ [newAddress])"
        by (subst dialIterate.simps)
           (auto simp add: Let_def bt [unfolded t1_def] newAddress_def ls1_def t1_def t2_def t3_def
              e_def dupes1_def)
      have le: "e = lastErrorOf env network dupes1"
        using "1.prems"(6) by (simp add: lastErrorOf_def dupes1_def e_def)
      have cnt: "GoodDials (ls1\<lparr> FailedDials := FailedDials ls1 + 1 \<rparr>) +
                 FailedDials (ls1\<lparr> FailedDials := FailedDials ls1 + 1 \<rparr>) = int (length dupes1)"
        using "1.prems"(8) by (simp add: ls1_def dupes1_def)
      have IH: "iterated cesrv env network address (ls1\<lparr> FailedDials := FailedDials ls1 + 1 \<rparr>)
          (dialIterate env cesrv network address (i + 1) t3 dupes1 e
            (ls1\<lparr> FailedDials := FailedDials ls1 + 1 \<rparr>) (dialled @ [newAddress]))"
      proof (rule "1.IH" [OF ls1_def t1_def bt newAddress_def False dupes1_def e_def t2_def t3_def nz
              "1.prems"(1,2) d1])
        show "dialled @ [newAddress] = dupes1" using "1.prems"(5) by (simp add: dupes1_def)
        show "i + 1 = length dupes1" using "1.prems"(6) by (simp add: dupes1_def)
        show "e = lastErrorOf env network dupes1" by (rule le)
        show "GoodDials (ls1\<lparr> FailedDials := FailedDials ls1 + 1 \<rparr>) +
                 FailedDials (ls1\<lparr> FailedDials := FailedDials ls1 + 1 \<rparr>) = int (length dupes1)"
          by (rule cnt)
      qed
      show ?thesis
        unfolding out using IH
        by (auto simp: iterated_def ls1_def split: prod.splits)
    qed
  qed
qed

lemma distinct_uniqueTargetKeys: "distinct (uniqueTargetKeys cesrv)"
  by (simp add: uniqueTargetKeys_def)

text \<open>
  Claim C2. Take a view whose ports are \<^verbatim>\<open>uint16\<close> values (every view that \<^verbatim>\<open>lookupSRV\<close>
  builds is one) and that has \<open>n \<ge> 1\<close> distinct \<open>host:port\<close> keys. Whatever the clock, the
  random source, the answers of the system dialer and the changes other goroutines make to
  the health cache, \<^verbatim>\<open>dialIterate\<close> returns after at most \<open>n\<close> calls of the system dialer.
  The addresses it dials are distinct keys of the view; it stops with the connection of
  the first dial that succeeds, or at the first address that \<^verbatim>\<open>bestTarget\<close> repeats, with the
  error that carries the number of addresses tried and the last error.
\<close>

theorem dialIterate_dials_each_target_once:
  assumes "portsInRange cesrv" and "1 \<le> length (uniqueTargetKeys cesrv)"
  shows "length (dialledOf (dialIterate env cesrv network address 0 t [] None noStats []))
           \<le> length (uniqueTargetKeys cesrv) \<and>
         iterated cesrv env network address noStats
           (dialIterate env cesrv network address 0 t [] None noStats [])"
proof -
  let ?out = "dialIterate env cesrv network address 0 t [] None noStats []"
  from assms(2) have ne: "allTargets cesrv \<noteq> []"
    by (auto simp: uniqueTargetKeys_def)
  have it: "iterated cesrv env network address noStats ?out"
    by (rule dialIterate_inv [OF assms(1) ne]) (simp_all add: lastErrorOf_def noStats_def)
  obtain res ls t' dialled where out: "?out = (res, ls, t', dialled)"
    by (cases ?out) auto
  from it have d: "distinct dialled" and sub: "set dialled \<subseteq> set (uniqueTargetKeys cesrv)"
    by (simp_all add: iterated_def out)
  have "length dialled = card (set dialled)"
    using d by (simp add: distinct_card)
  also have "\<dots> \<le> card (set (uniqueTargetKeys cesrv))"
    using sub by (intro card_mono) simp_all
  also have "\<dots> = length (uniqueTargetKeys cesrv)"
    by (simp add: distinct_card distinct_uniqueTargetKeys)
  finally have "length (dialledOf ?out) \<le> length (uniqueTargetKeys cesrv)"
    by (simp add: dialledOf_def out)
  with it show ?thesis by simp
qed

lemma populate_threeZero:
  "priorities (populate (newCeSRV 0) threeZero) =
     [\<lparr> priority = 0, totalWeight = 3,
        targets = [\<lparr> weight = 1, port = 4000, target = ''s1'' \<rparr>,
                   \<lparr> weight = 1, port = 4001, target = ''s2'' \<rparr>,
                   \<lparr> weight = 1, port = 4002, target = ''s3'' \<rparr>] \<rparr>]"
  by code_simp

lemma keys_threeZero:
  "uniqueTargetKeys (populate (newCeSRV 0) threeZero) = [''s1:4000'', ''s2:4001'', ''s3:4002'']"
  by (simp add: uniqueTargetKeys_def allTargets_def populate_threeZero healthStoreKey_def
      makeHealthStoreKey_def FormatUint.simps digitChar_def)

lemma dialIterate_threeZero:
  "fst (dialIterate alwaysRefused (populate (newCeSRV 0) threeZero) ''tcp'' ''example.net:80'' 0
          newCslb [] None noStats []) =
     Inr \<lparr> conn = None,
           err = Some ''cslb: All unique targets failed for example.net:80/s1:4000. Tried: 3. Last Error: connection refused'' \<rparr>"
  "dialledOf (dialIterate alwaysRefused (populate (newCeSRV 0) threeZero) ''tcp'' ''example.net:80'' 0
          newCslb [] None noStats []) = [''s1:4000'', ''s2:4001'', ''s3:4002'']"
  by (simp_all add: dialledOf_def dialIterate.simps Let_def bestTarget_def populate_threeZero eligible_def
      healthStoreKey_def makeHealthStoreKey_def FormatUint.simps digitChar_def alwaysRefused_def
      newCslb_fields setDialResult_def createHealth_def isGood_def After_def addressOf_def
      synthesize_def FormatInt_def allFailed_def showError_def noStats_def newCeHealth_def Add_def
      zeroTime_def IsZero_def Before_def Minute_def Second_def emptySRV_def)

theorem dialIterate_dials_each_target_once_witness:
  "portsInRange (populate (newCeSRV 0) threeZero) \<and>
   1 \<le> length (uniqueTargetKeys (populate (newCeSRV 0) threeZero)) \<and>
   length (uniqueTargetKeys (populate (newCeSRV 0) threeZero)) = 3 \<and>
   dialledOf (dialIterate alwaysRefused (populate (newCeSRV 0) threeZero) ''tcp'' ''example.net:80'' 0
          newCslb [] None noStats []) = [''s1:4000'', ''s2:4001'', ''s3:4002''] \<and>
   fst (dialIterate alwaysRefused (populate (newCeSRV 0) threeZero) ''tcp'' ''example.net:80'' 0
          newCslb [] None noStats []) =
     Inr \<lparr> conn = None,
           err = Some ''cslb: All unique targets failed for example.net:80/s1:4000. Tried: 3. Last Error: connection refused'' \<rparr>"
proof -
  have p: "portsInRange (populate (newCeSRV 0) threeZero)"
    by (simp add: portsInRange_def allTargets_def populate_threeZero)
  have n: "1 \<le> length (uniqueTargetKeys (populate (newCeSRV 0) threeZero))"
    by (simp add: keys_threeZero)
  from dialIterate_dials_each_target_once [OF p n, of alwaysRefused "''tcp''" "''example.net:80''" newCslb]
  show ?thesis
    using p n by (simp add: keys_threeZero dialIterate_threeZero)
qed

subsection \<open>Splitting the address\<close>

lemma extractHostPort_nonempty:
  assumes "address \<noteq> []"
  shows "\<exists>host portText. extractHostPort ParseIP address = Inr (host, portText) \<and>
     (if hd address = CHR ''['' \<or> CHR '':'' \<notin> set (tl address) \<or> last address = CHR '':'' \<or>
         ParseIP (take (nat (LastIndex address (CHR '':''))) address)
      then host = [] \<and> portText = []
      else host \<noteq> [] \<and> portText \<noteq> [] \<and> CHR '':'' \<notin> set portText \<and>
           address = host @ '':'' @ portText)"
proof -
  from assms have b0: "byteAt address 0 = Inr (hd address)"
    by (cases address) (simp_all add: byteAt_def)
  show ?thesis
  proof (cases "hd address = CHR ''['' \<or> CHR '':'' \<notin> set (tl address)")
    case True
    then show ?thesis
      by (auto simp: extractHostPort_def b0 Let_def LastIndex_lt_1_iff)
  next
    case False
    then have nb: "hd address \<noteq> CHR ''[''" and ge1: "\<not> LastIndex address (CHR '':'') < 1"
      and intl: "CHR '':'' \<in> set (tl address)"
      by (simp_all add: LastIndex_lt_1_iff)
    then obtain k where k: "LastIndex address (CHR '':'') = int k" "k < length address"
      "address ! k = CHR '':''" "CHR '':'' \<notin> set (drop (Suc k) address)"
      using LastIndex_cases [of "CHR '':''" address] by auto
    with ge1 have kpos: "0 < k" by simp
    have split: "address = take k address @ '':'' @ drop (Suc k) address"
      using id_take_nth_drop [OF k(2)] k(3) by simp
    show ?thesis
    proof (cases "Suc k = length address")
      case True
      then have "k = length address - 1" by simp
      then have "last address = CHR '':''"
        using k(3) assms by (simp add: last_conv_nth)
      then show ?thesis
        using True k(1) nb ge1 by (simp add: extractHostPort_def b0 Let_def)
    next
      case False
      with k(2) have lt: "Suc k < length address" by simp
      then have dne: "drop (Suc k) address \<noteq> []" by simp
      have "last address = last (drop (Suc k) address)"
        using lt by simp
      with k(4) dne have nl: "last address \<noteq> CHR '':''"
        using last_in_set by metis
      have st: "sliceTo address (int k) = Inr (take k address)"
        using k(2) by (simp add: sliceTo_def)
      have sf: "sliceFrom address (int k + 1) = Inr (drop (Suc k) address)"
        using lt by (simp add: sliceFrom_def nat_add_distrib)
      have tne: "take k address \<noteq> []" using kpos assms by simp
      show ?thesis
        using lt nb ge1 nl k(1,4) st sf tne dne split intl
        by (simp add: extractHostPort_def b0 Let_def)
    qed
  qed
qed

lemma extractHostPort_empty: "extractHostPort ParseIP [] = Inl IndexOutOfRange"
  by (simp add: extractHostPort_def byteAt_def)

text \<open>
  Claim C10. On every non-empty address \<^verbatim>\<open>extractHostPort\<close> returns a pair without a panic:
  every index and slice bound it uses is in range. The pair is empty when the address
  starts with \<open>[\<close>, has no colon at index 1 or later, ends with a colon, or the part before
  the last colon parses as an IP address; otherwise it is the non-empty parts before and
  after the last colon. On the empty address the read of \<^verbatim>\<open>address[0]\<close> panics, and
  \<^verbatim>\<open>dialContext\<close>, which passes the lowered address on unchecked, panics with it.
\<close>

theorem extractHostPort_total:
  "(address \<noteq> [] \<longrightarrow>
     (\<exists>host portText. extractHostPort ParseIP address = Inr (host, portText) \<and>
       (if hd address = CHR ''['' \<or> CHR '':'' \<notin> set (tl address) \<or> last address = CHR '':'' \<or>
           ParseIP (take (nat (LastIndex address (CHR '':''))) address)
        then host = [] \<and> portText = []
        else host \<noteq> [] \<and> portText \<noteq> [] \<and> CHR '':'' \<notin> set portText \<and>
             address = host @ '':'' @ portText))) \<and>
   extractHostPort ParseIP [] = Inl IndexOutOfRange \<and>
   dialContext t ParseIP LookupSRV now env network [] = Inl IndexOutOfRange"
  using extractHostPort_nonempty [of address ParseIP]
  by (simp add: extractHostPort_empty dialContext_def ToLower_def)

theorem extractHostPort_total_witness:
  "''example.com:80'' \<noteq> [] \<and>
   extractHostPort (\<lambda>host. False) ''example.com:80'' = Inr (''example.com'', ''80'') \<and>
   extractHostPort (\<lambda>host. host = ''127.0.0.1'') ''127.0.0.1:80'' = Inr ([], []) \<and>
   extractHostPort (\<lambda>host. False) ''[::1]:443'' = Inr ([], []) \<and>
   extractHostPort (\<lambda>host. False) ''example.com'' = Inr ([], []) \<and>
   extractHostPort (\<lambda>host. False) ''example.com:'' = Inr ([], [])"
  using extractHostPort_total [of "''example.com:80''" "\<lambda>host. False"]
  by (simp add: extractHostPort_def byteAt_def LastIndex_def sliceTo_def sliceFrom_def)

end
